theory Spec2Isabelle
  imports Complex_Main
begin

section \<open>JavaScript strings\<close>

text \<open>
  Strings are \<open>char list\<close>. The functions below are the string methods the routes call:
  \<open>String.prototype.split\<close> with a one-character separator, \<open>Array.prototype.join\<close>,
  \<open>String.prototype.includes\<close> and the decimal rendering of a number inside a template
  literal. \<open>String.prototype.toLowerCase\<close> follows the case mappings of Unicode; it is
  a parameter of the functions that call it.
\<close>

type_synonym to_lower = "string \<Rightarrow> string"

fun split_acc :: "char \<Rightarrow> string \<Rightarrow> string \<Rightarrow> string list" where
  "split_acc sep cur [] = [rev cur]"
| "split_acc sep cur (c # cs) =
     (if c = sep then rev cur # split_acc sep [] cs else split_acc sep (c # cur) cs)"

definition split :: "char \<Rightarrow> string \<Rightarrow> string list" where
  "split sep s = split_acc sep [] s"

fun join :: "string \<Rightarrow> string list \<Rightarrow> string" where
  "join sep [] = []"
| "join sep [x] = x"
| "join sep (x # y # ys) = x @ sep @ join sep (y # ys)"

fun is_prefix :: "string \<Rightarrow> string \<Rightarrow> bool" where
  "is_prefix [] s = True"
| "is_prefix (p # ps) [] = False"
| "is_prefix (p # ps) (c # cs) = (p = c \<and> is_prefix ps cs)"

fun str_includes :: "string \<Rightarrow> string \<Rightarrow> bool" where
  "str_includes [] needle = (needle = [])"
| "str_includes (c # cs) needle = (is_prefix needle (c # cs) \<or> str_includes cs needle)"

definition digit_char :: "nat \<Rightarrow> char" where
  "digit_char d = char_of (48 + d)"

fun string_of_nat :: "nat \<Rightarrow> string" where
  "string_of_nat n =
     (if n < 10 then [digit_char n] else string_of_nat (n div 10) @ [digit_char (n mod 10)])"

declare string_of_nat.simps [simp del]

text \<open>\<open>Response.ok\<close>: the status is in the range 200 to 299.\<close>

definition ok :: "nat \<Rightarrow> bool" where
  "ok status = (200 \<le> status \<and> status \<le> 299)"

section \<open>The LLM client (groq-client.ts)\<close>

text \<open>
  The environment variables the server reads. \<open>None\<close> is an unset variable; an empty
  value is falsy in JavaScript, like an unset one.
\<close>

record process_env =
  GROQ_API_KEY :: "string option"
  GROQ_API_KEY_ALTERNATIVE_1 :: "string option"
  GROQ_API_KEY_ALTERNATIVE_2 :: "string option"
  GROQ_API_KEY_ALTERNATIVE_3 :: "string option"
  GITHUB_TOKEN :: "string option"

definition GROQ_API_URL :: string where
  "GROQ_API_URL = ''https://api.groq.com/openai/v1/chat/completions''"

definition GROQ_MODEL :: string where
  "GROQ_MODEL = ''meta-llama/llama-4-scout-17b-16e-instruct''"

text \<open>The module-level state: \<open>currentApiKeyIndex\<close> and \<open>allKeysExhausted\<close>.\<close>

record key_state =
  currentApiKeyIndex :: nat
  allKeysExhausted :: bool

definition initial_key_state :: key_state where
  "initial_key_state = \<lparr>currentApiKeyIndex = 0, allKeysExhausted = False\<rparr>"

datatype role = System | User | Assistant

record GroqMessage =
  msg_role :: role
  msg_content :: string

record GroqRequestOptions =
  messages :: "GroqMessage list"
  temperature :: "rat option"
  max_tokens :: "nat option"

datatype GroqResponse = Success string | Failure string

text \<open>
  One outbound request to the chat-completion endpoint: the bearer credential and the
  JSON body. The URL and the method are the same for every request.
\<close>

record groq_request =
  bearer :: string
  req_model :: string
  req_messages :: "GroqMessage list"
  req_temperature :: rat
  req_max_tokens :: nat

text \<open>
  What \<open>fetch\<close> gives back. \<open>FetchThrew msg\<close> is a rejected promise (a network
  failure) whose error message is \<open>msg\<close>. Otherwise there is a status and a body;
  reading the body (\<open>response.text()\<close>, \<open>response.json()\<close>, and the property
  access on the parsed value) either throws, or yields the value of
  \<open>data.choices?.[0]?.message?.content\<close>, \<open>None\<close> when one of the links is absent.
\<close>

datatype groq_body = BodyThrew string | Body "string option"

datatype groq_reply = FetchThrew string | Reply nat groq_body

text \<open>
  The upstream service is a function of the number of requests this process has sent so
  far and of the request itself.
\<close>

type_synonym groq_api = "nat \<Rightarrow> groq_request \<Rightarrow> groq_reply"

definition push_key :: "string option \<Rightarrow> string list \<Rightarrow> string list" where
  "push_key v keys = (case v of None \<Rightarrow> keys | Some k \<Rightarrow> if k = [] then keys else keys @ [k])"

definition getApiKeys :: "process_env \<Rightarrow> string list" where
  "getApiKeys env =
     push_key (GROQ_API_KEY_ALTERNATIVE_3 env)
       (push_key (GROQ_API_KEY_ALTERNATIVE_2 env)
         (push_key (GROQ_API_KEY_ALTERNATIVE_1 env)
           (push_key (GROQ_API_KEY env) [])))"

definition getCurrentApiKey :: "process_env \<Rightarrow> key_state \<Rightarrow> string option \<times> key_state" where
  "getCurrentApiKey env st =
     (let keys = getApiKeys env in
      if length keys = 0 then (None, st)
      else
        let st1 = (if currentApiKeyIndex st \<ge> length keys
                   then st\<lparr>currentApiKeyIndex := 0, allKeysExhausted := True\<rparr>
                   else st)
        in (Some (keys ! currentApiKeyIndex st1), st1))"

definition switchToNextKey :: "process_env \<Rightarrow> key_state \<Rightarrow> bool \<times> key_state" where
  "switchToNextKey env st =
     (let keys = getApiKeys env;
          st1 = st\<lparr>currentApiKeyIndex := currentApiKeyIndex st + 1\<rparr>
      in if currentApiKeyIndex st1 \<ge> length keys
         then (False, st1\<lparr>currentApiKeyIndex := 0, allKeysExhausted := True\<rparr>)
         else (True, st1))"

definition mk_request :: "GroqMessage list \<Rightarrow> rat \<Rightarrow> nat \<Rightarrow> string \<Rightarrow> groq_request" where
  "mk_request ms t mt apiKey =
     \<lparr>bearer = apiKey, req_model = GROQ_MODEL, req_messages = ms,
      req_temperature = t, req_max_tokens = mt\<rparr>"

text \<open>
  \<open>attemptRequest\<close>, the closure inside \<open>sendToGroq\<close>. It carries the module state and
  the list of requests sent so far, and returns both with its result. The \<open>try\<close> block
  covers the fetch and the reading of the body: whatever throws there becomes a failure
  with the error's message.
\<close>

function attemptRequest ::
  "process_env \<Rightarrow> groq_api \<Rightarrow> GroqMessage list \<Rightarrow> rat \<Rightarrow> nat \<Rightarrow>
   key_state \<times> groq_request list \<Rightarrow> GroqResponse \<times> key_state \<times> groq_request list" where
  "attemptRequest env api ms t mt (st, sent) =
     (let r = getCurrentApiKey env st; apiKey = fst r; st1 = snd r in
      if apiKey = None \<or> apiKey = Some [] then
        (Failure ''No GROQ API keys configured'', st1, sent)
      else
        let req = mk_request ms t mt (the apiKey);
            sent1 = sent @ [req]
        in case api (length sent) req of
             FetchThrew msg \<Rightarrow> (Failure msg, st1, sent1)
           | Reply status body \<Rightarrow>
               if status = 429 \<and> \<not> allKeysExhausted st1 then
                 (let sw = switchToNextKey env st1 in
                  if fst sw then attemptRequest env api ms t mt (snd sw, sent1)
                  else (Failure ''All API keys exhausted due to rate limiting. Please try again later.'',
                        snd sw, sent1))
               else if \<not> ok status then
                 (case body of
                    BodyThrew msg \<Rightarrow> (Failure msg, st1, sent1)
                  | Body c \<Rightarrow> (Failure (''Groq API error: '' @ string_of_nat status), st1, sent1))
               else
                 (case body of
                    BodyThrew msg \<Rightarrow> (Failure msg, st1, sent1)
                  | Body c \<Rightarrow>
                      if c = None \<or> c = Some [] then (Failure ''No content in Groq response'', st1, sent1)
                      else (Success (the c), st1, sent1)))"
  by pat_completeness auto
termination
proof (relation "measure (\<lambda>(env, api, ms, t, mt, st, sent).
                   length (getApiKeys env) - currentApiKeyIndex st)", goal_cases)
  case 1
  show ?case by simp
next
  case (2 env api ms t mt st sent r apiKey st1 req sent1 status body sw)
  then show ?case
    by (auto simp: getCurrentApiKey_def switchToNextKey_def Let_def split: if_splits)
qed

declare attemptRequest.simps [simp del]

text \<open>
  \<open>sendToGroq\<close> destructures its options with the defaults \<open>temperature = 0.5\<close> and
  \<open>max_tokens = 4000\<close>, resets the flag and starts the first attempt.
\<close>

definition effective_temperature :: "GroqRequestOptions \<Rightarrow> rat" where
  "effective_temperature options = (case temperature options of None \<Rightarrow> 1 / 2 | Some v \<Rightarrow> v)"

definition effective_max_tokens :: "GroqRequestOptions \<Rightarrow> nat" where
  "effective_max_tokens options = (case max_tokens options of None \<Rightarrow> 4000 | Some v \<Rightarrow> v)"

definition request_with :: "GroqRequestOptions \<Rightarrow> string \<Rightarrow> groq_request" where
  "request_with options apiKey =
     mk_request (messages options) (effective_temperature options) (effective_max_tokens options) apiKey"

definition sendToGroq ::
  "process_env \<Rightarrow> groq_api \<Rightarrow> GroqRequestOptions \<Rightarrow>
   key_state \<times> groq_request list \<Rightarrow> GroqResponse \<times> key_state \<times> groq_request list" where
  "sendToGroq env api options = (\<lambda>(st, sent).
     attemptRequest env api (messages options) (effective_temperature options)
       (effective_max_tokens options) (st\<lparr>allKeysExhausted := False\<rparr>, sent))"

section \<open>The repository tree endpoint (api/github/tree/route.ts)\<close>

text \<open>
  \<open>new URL(url)\<close> is the platform's URL parser. It is a parameter of the model: it
  gives the \<open>hostname\<close> and the \<open>pathname\<close> of the string, or \<open>None\<close> where the
  constructor throws.
\<close>

type_synonym url_parser = "string \<Rightarrow> (string \<times> string) option"

definition parseGitHubUrl :: "url_parser \<Rightarrow> string \<Rightarrow> (string \<times> string) option" where
  "parseGitHubUrl parse url =
     (case parse url of
        None \<Rightarrow> None
      | Some (hostname, pathname) \<Rightarrow>
          if \<not> str_includes hostname ''github.com'' then None
          else
            let parts = filter (\<lambda>p. p \<noteq> []) (split CHR ''/'' pathname) in
            if length parts < 2 then None
            else Some (parts ! 0, parts ! 1))"

datatype item_type = Blob | Tree | Commit

record GitHubTreeItem =
  item_path :: string
  item_mode :: string
  item_type :: item_type
  item_sha :: string
  item_size :: "nat option"

datatype node_type = File | Folder

text \<open>
  A \<open>FileNode\<close> as the response serialises it: \<open>id\<close>, \<open>name\<close>, \<open>type\<close>, \<open>path\<close> and
  \<open>children\<close>, which is \<open>None\<close> where the property is \<open>undefined\<close>.
\<close>

datatype FileNode =
  FileNode (fn_id: string) (fn_name: string) (fn_type: node_type) (fn_path: string)
    (fn_children: "FileNode list option")

text \<open>
  While the tree is built the nodes are objects that \<open>nodeMap\<close>, \<open>root\<close> and the
  \<open>children\<close> arrays share by reference, and \<open>parent.children.push\<close> mutates a node
  that is already reachable from \<open>root\<close>. The model keeps the objects in a store: a node's address is
  its position in the store, and \<open>root\<close>, \<open>nodeMap\<close> and \<open>children\<close> hold addresses.
\<close>

record node_obj =
  node_id :: string
  node_name :: string
  node_kind :: node_type
  node_path :: string
  node_children :: "nat list option"

record build_state =
  store :: "node_obj list"
  nodeMap :: "string \<rightharpoonup> nat"
  root :: "nat list"

definition depth :: "string \<Rightarrow> nat" where
  "depth p = length (split CHR ''/'' p)"

text \<open>
  The comparator of the sort. \<open>localeCompare\<close> belongs to the platform and depends on the
  locale: it is the parameter \<open>lc\<close>.
\<close>

definition compare_items ::
  "(string \<Rightarrow> string \<Rightarrow> int) \<Rightarrow> GitHubTreeItem \<Rightarrow> GitHubTreeItem \<Rightarrow> int" where
  "compare_items lc a b =
     (let aDepth = depth (item_path a); bDepth = depth (item_path b) in
      if aDepth \<noteq> bDepth then int aDepth - int bDepth
      else if item_type a = Tree \<and> item_type b \<noteq> Tree then - 1
      else if item_type a \<noteq> Tree \<and> item_type b = Tree then 1
      else lc (item_path a) (item_path b))"

text \<open>
  \<open>Array.prototype.sort\<close> is stable. With a consistent comparator there is one stable
  sorted arrangement of the input, the one this insertion sort computes: it takes the
  elements from left to right and puts each one behind the elements that do not come
  after it.
\<close>

fun insert_by :: "('a \<Rightarrow> 'a \<Rightarrow> int) \<Rightarrow> 'a \<Rightarrow> 'a list \<Rightarrow> 'a list" where
  "insert_by cmp x [] = [x]"
| "insert_by cmp x (y # ys) = (if cmp x y < 0 then x # y # ys else y # insert_by cmp x ys)"

definition sort_by :: "('a \<Rightarrow> 'a \<Rightarrow> int) \<Rightarrow> 'a list \<Rightarrow> 'a list" where
  "sort_by cmp xs = foldl (\<lambda>acc x. insert_by cmp x acc) [] xs"

definition sortedItems :: "(string \<Rightarrow> string \<Rightarrow> int) \<Rightarrow> GitHubTreeItem list \<Rightarrow> GitHubTreeItem list" where
  "sortedItems lc items = sort_by (compare_items lc) items"

definition parentPath :: "string \<Rightarrow> string" where
  "parentPath p = join ''/'' (butlast (split CHR ''/'' p))"

text \<open>One round of the loop over the sorted items.\<close>

definition add_item :: "build_state \<Rightarrow> GitHubTreeItem \<Rightarrow> build_state" where
  "add_item s item =
     (let pathParts = split CHR ''/'' (item_path item);
          name = last pathParts;
          parent_path = join ''/'' (butlast pathParts);
          node = \<lparr>node_id = item_sha item, node_name = name,
                  node_kind = (if item_type item = Tree then Folder else File),
                  node_path = item_path item,
                  node_children = (if item_type item = Tree then Some [] else None)\<rparr>;
          addr = length (store s);
          s1 = s\<lparr>store := store s @ [node], nodeMap := (nodeMap s)(item_path item \<mapsto> addr)\<rparr>
      in if parent_path = [] then s1\<lparr>root := root s1 @ [addr]\<rparr>
         else
           (case nodeMap s1 parent_path of
              None \<Rightarrow> s1
            | Some p \<Rightarrow>
                (case node_children (store s1 ! p) of
                   None \<Rightarrow> s1
                 | Some cs \<Rightarrow>
                     s1\<lparr>store := (store s1)[p := (store s1 ! p)\<lparr>node_children := Some (cs @ [addr])\<rparr>]\<rparr>)))"

definition empty_build :: build_state where
  "empty_build = \<lparr>store = [], nodeMap = Map.empty, root = []\<rparr>"

definition build :: "(string \<Rightarrow> string \<Rightarrow> int) \<Rightarrow> GitHubTreeItem list \<Rightarrow> build_state" where
  "build lc items = foldl add_item empty_build (sortedItems lc items)"

text \<open>
  Reading the value of a node out of the store, as the JSON serialisation of the result
  does. A child always has a later address than its parent (\<open>build_children_later\<close>
  below), so the guard on the addresses removes nothing; it is what makes the recursion
  well-founded for every store.
\<close>

function read_node :: "node_obj list \<Rightarrow> nat \<Rightarrow> FileNode" where
  "read_node st a =
     FileNode (node_id (st ! a)) (node_name (st ! a)) (node_kind (st ! a)) (node_path (st ! a))
       (map_option (\<lambda>cs. map (read_node st) (filter (\<lambda>c. a < c \<and> c < length st) cs))
          (node_children (st ! a)))"
  by pat_completeness auto
termination
  by (relation "measure (\<lambda>(st, a). length st - a)") auto

declare read_node.simps [simp del]

definition buildFileTree :: "(string \<Rightarrow> string \<Rightarrow> int) \<Rightarrow> GitHubTreeItem list \<Rightarrow> FileNode list" where
  "buildFileTree lc items = (let s = build lc items in map (read_node (store s)) (root s))"

text \<open>
  A JavaScript string value is truthy when it is present and not empty.
\<close>

definition truthy :: "string option \<Rightarrow> bool" where
  "truthy v = (case v of None \<Rightarrow> False | Some s \<Rightarrow> s \<noteq> [])"

type_synonym headers = "(string \<times> string) list"

definition getGitHubHeaders :: "process_env \<Rightarrow> headers" where
  "getGitHubHeaders env =
     (let hs = [(''Accept'', ''application/vnd.github.v3+json''), (''User-Agent'', ''codoc-webapp'')];
          token = GITHUB_TOKEN env
      in if truthy token \<and> token \<noteq> Some ''your_github_token_here''
         then hs @ [(''Authorization'', ''Bearer '' @ the token)]
         else hs)"

text \<open>
  An outbound request to the source-hosting API is its URL and its headers. A reply is a
  rejected fetch with the error's message, or a status with the body as the handler
  reads it: \<open>Inl msg\<close> when \<open>response.json()\<close> or the access to the fields the handler
  needs throws an error with that message, \<open>Inr\<close> the fields otherwise. The
  service is one function per resource.
\<close>

type_synonym gh_request = "string \<times> headers"

datatype 'a fetched = FetchFailed string | Fetched nat "string + 'a"

record contents_data =
  data_type :: string
  data_name :: string
  data_path :: string
  data_size :: nat
  data_sha :: string
  data_content :: "string option"

record github_api =
  repo_api :: "gh_request \<Rightarrow> string fetched"
  branch_api :: "gh_request \<Rightarrow> string fetched"
  tree_api :: "gh_request \<Rightarrow> (GitHubTreeItem list \<times> bool) fetched"
  contents_api :: "gh_request \<Rightarrow> contents_data fetched"

datatype 'a response = Response nat 'a

datatype tree_json =
  TreeError string
  | TreeJson string string string "FileNode list" bool

record tree_request =
  treq_url :: "string option"

text \<open>
  The handler of the tree endpoint. The request body is \<open>Inl msg\<close> when
  \<open>request.json()\<close> or the destructuring throws. The result is the response together
  with the outbound requests, in the order they were issued. In the successful response
  the fields are \<open>owner\<close>, \<open>repo\<close>, \<open>branch\<close>, \<open>tree\<close> and \<open>truncated\<close>.
\<close>

definition tree_POST ::
  "url_parser \<Rightarrow> (string \<Rightarrow> string \<Rightarrow> int) \<Rightarrow> process_env \<Rightarrow> github_api \<Rightarrow>
   string + tree_request \<Rightarrow> tree_json response \<times> gh_request list" where
  "tree_POST parse lc env api body =
     (case body of
        Inl msg \<Rightarrow> (Response 500 (TreeError msg), [])
      | Inr b \<Rightarrow>
          if \<not> truthy (treq_url b) then (Response 400 (TreeError ''GitHub URL is required''), [])
          else
            (case parseGitHubUrl parse (the (treq_url b)) of
               None \<Rightarrow> (Response 400 (TreeError ''Invalid GitHub URL''), [])
             | Some (owner, repo) \<Rightarrow>
                 let hs = getGitHubHeaders env;
                     req1 = (''https://api.github.com/repos/'' @ owner @ ''/'' @ repo, hs)
                 in (case repo_api api req1 of
                       FetchFailed msg \<Rightarrow> (Response 500 (TreeError msg), [req1])
                     | Fetched st1 body1 \<Rightarrow>
                         if \<not> ok st1 then
                           (if st1 = 404 then (Response 404 (TreeError ''Repository not found''), [req1])
                            else (Response 500 (TreeError (''GitHub API error: '' @ string_of_nat st1)), [req1]))
                         else
                           (case body1 of
                              Inl msg \<Rightarrow> (Response 500 (TreeError msg), [req1])
                            | Inr defaultBranch \<Rightarrow>
                                let req2 = (''https://api.github.com/repos/'' @ owner @ ''/'' @ repo @
                                            ''/branches/'' @ defaultBranch, hs)
                                in (case branch_api api req2 of
                                      FetchFailed msg \<Rightarrow> (Response 500 (TreeError msg), [req1, req2])
                                    | Fetched st2 body2 \<Rightarrow>
                                        if \<not> ok st2 then
                                          (Response 500 (TreeError (''Failed to get branch info: '' @ string_of_nat st2)),
                                           [req1, req2])
                                        else
                                          (case body2 of
                                             Inl msg \<Rightarrow> (Response 500 (TreeError msg), [req1, req2])
                                           | Inr treeSha \<Rightarrow>
                                               let req3 = (''https://api.github.com/repos/'' @ owner @ ''/'' @ repo @
                                                           ''/git/trees/'' @ treeSha @ ''?recursive=1'', hs)
                                               in (case tree_api api req3 of
                                                     FetchFailed msg \<Rightarrow>
                                                       (Response 500 (TreeError msg), [req1, req2, req3])
                                                   | Fetched st3 body3 \<Rightarrow>
                                                       if \<not> ok st3 then
                                                         (Response 500 (TreeError (''Failed to get tree: '' @ string_of_nat st3)),
                                                          [req1, req2, req3])
                                                       else
                                                         (case body3 of
                                                            Inl msg \<Rightarrow>
                                                              (Response 500 (TreeError msg), [req1, req2, req3])
                                                          | Inr (tree, truncated) \<Rightarrow>
                                                              (Response 200
                                                                 (TreeJson owner repo defaultBranch
                                                                    (buildFileTree lc tree) truncated),
                                                               [req1, req2, req3])))))))))"

section \<open>The file content endpoint (api/github/content/route.ts)\<close>

text \<open>
  \<open>Buffer.from(s, "base64")\<close>. The decoder of the platform is lenient: it accepts the
  URL-safe alphabet as well, passes over every character that is not in the alphabet
  (the line breaks the source-hosting API puts into the payload among them) and stops at
  the first padding character. A byte is a natural number below 256.
\<close>

definition b64_alphabet :: string where
  "b64_alphabet = ''ABCDEFGHIJKLMNOPQRSTUVWXYZabcdefghijklmnopqrstuvwxyz0123456789+/''"

fun index_of :: "'a \<Rightarrow> 'a list \<Rightarrow> nat option" where
  "index_of x [] = None"
| "index_of x (y # ys) = (if x = y then Some 0 else map_option Suc (index_of x ys))"

definition unbase64 :: "char \<Rightarrow> nat option" where
  "unbase64 c =
     (if c = CHR ''-'' then Some 62 else if c = CHR ''_'' then Some 63
      else index_of c b64_alphabet)"

fun b64_sextets :: "string \<Rightarrow> nat list" where
  "b64_sextets [] = []"
| "b64_sextets (c # cs) =
     (if c = CHR ''='' then []
      else case unbase64 c of None \<Rightarrow> b64_sextets cs | Some v \<Rightarrow> v # b64_sextets cs)"

fun b64_bytes :: "nat list \<Rightarrow> nat list" where
  "b64_bytes (a # b # c # d # rest) =
     [a * 4 + b div 16, (b mod 16) * 16 + c div 4, (c mod 4) * 64 + d] @ b64_bytes rest"
| "b64_bytes [a, b, c] = [a * 4 + b div 16, (b mod 16) * 16 + c div 4]"
| "b64_bytes [a, b] = [a * 4 + b div 16]"
| "b64_bytes [a] = []"
| "b64_bytes [] = []"

definition Buffer_from_base64 :: "string \<Rightarrow> nat list" where
  "Buffer_from_base64 s = b64_bytes (b64_sextets s)"

text \<open>
  \<open>buf.toString("utf-8")\<close>. The text is the list of its Unicode scalar values. The
  decoder never fails: where the bytes are not well-formed UTF-8 it puts U+FFFD for the
  longest prefix that could still begin a well-formed sequence, and goes on behind it.
  A byte order mark is kept.
\<close>

definition is_cont :: "nat \<Rightarrow> bool" where
  "is_cont b = (128 \<le> b \<and> b \<le> 191)"

definition second_ok :: "nat \<Rightarrow> nat \<Rightarrow> bool" where
  "second_ok lead b =
     (if lead = 224 then 160 \<le> b \<and> b \<le> 191
      else if lead = 237 then 128 \<le> b \<and> b \<le> 159
      else if lead = 240 then 144 \<le> b \<and> b \<le> 191
      else if lead = 244 then 128 \<le> b \<and> b \<le> 143
      else is_cont b)"

definition replacement :: nat where
  "replacement = 65533"

function utf8_decode :: "nat list \<Rightarrow> nat list" where
  "utf8_decode [] = []"
| "utf8_decode (b # bs) =
     (if b < 128 then b # utf8_decode bs
      else if 194 \<le> b \<and> b \<le> 223 then
        (case bs of
           [] \<Rightarrow> [replacement]
         | c # r \<Rightarrow>
             if is_cont c then ((b - 192) * 64 + (c - 128)) # utf8_decode r
             else replacement # utf8_decode bs)
      else if 224 \<le> b \<and> b \<le> 239 then
        (case bs of
           [] \<Rightarrow> [replacement]
         | c # r \<Rightarrow>
             if second_ok b c then
               (case r of
                  [] \<Rightarrow> [replacement]
                | d # r1 \<Rightarrow>
                    if is_cont d
                    then ((b - 224) * 4096 + (c - 128) * 64 + (d - 128)) # utf8_decode r1
                    else replacement # utf8_decode r)
             else replacement # utf8_decode bs)
      else if 240 \<le> b \<and> b \<le> 244 then
        (case bs of
           [] \<Rightarrow> [replacement]
         | c # r \<Rightarrow>
             if second_ok b c then
               (case r of
                  [] \<Rightarrow> [replacement]
                | d # r1 \<Rightarrow>
                    if is_cont d then
                      (case r1 of
                         [] \<Rightarrow> [replacement]
                       | e # r2 \<Rightarrow>
                           if is_cont e
                           then ((b - 240) * 262144 + (c - 128) * 4096 + (d - 128) * 64 + (e - 128))
                                # utf8_decode r2
                           else replacement # utf8_decode r1)
                    else replacement # utf8_decode r)
             else replacement # utf8_decode bs)
      else replacement # utf8_decode bs)"
  by pat_completeness auto
termination
  by (relation "measure length") auto

declare utf8_decode.simps(2) [simp del]

type_synonym js_text = "nat list"

text \<open>
  \<open>path.split(".").pop()?.toLowerCase() || ""\<close>. The array that \<open>split\<close> gives is
  never empty, so \<open>pop\<close> gives a string; and a string that is falsy is the empty
  string, so the fallback changes nothing.
\<close>

definition extension_of :: "to_lower \<Rightarrow> string \<Rightarrow> string" where
  "extension_of toLowerCase path =
     (let ext = toLowerCase (last (split CHR ''.'' path)) in if ext = [] then [] else ext)"

definition imageExtensions :: "string list" where
  "imageExtensions = [''png'', ''jpg'', ''jpeg'', ''gif'', ''svg'', ''webp'', ''ico'', ''bmp'']"

definition videoExtensions :: "string list" where
  "videoExtensions = [''mp4'', ''webm'', ''mov'', ''avi'', ''mkv'']"

definition pdfExtensions :: "string list" where
  "pdfExtensions = [''pdf'']"

datatype media_type = Image | Video | Pdf

text \<open>
  The JSON of the content endpoint: an error, the media variant (\<open>name\<close>, \<open>path\<close>,
  \<open>size\<close>, \<open>extension\<close>, \<open>sha\<close>, \<open>mediaType\<close>, \<open>rawUrl\<close>; \<open>isMedia\<close> is true) or
  the text variant (\<open>name\<close>, \<open>path\<close>, \<open>size\<close>, \<open>content\<close>, \<open>extension\<close>, \<open>sha\<close>;
  \<open>isMedia\<close> is false).
\<close>

datatype content_json =
  ContentError string
  | MediaJson string string nat string string media_type string
  | TextJson string string nat js_text string string

fun isMedia :: "content_json \<Rightarrow> bool option" where
  "isMedia (ContentError e) = None"
| "isMedia (MediaJson n p sz ext sha mt raw) = Some True"
| "isMedia (TextJson n p sz c ext sha) = Some False"


record content_request =
  creq_url :: "string option"
  creq_path :: "string option"
  creq_branch :: "string option"

text \<open>\<open>branch || "main"\<close>, and the URL of the request for the content.\<close>

definition branch_or_main :: "string option \<Rightarrow> string" where
  "branch_or_main branch = (if truthy branch then the branch else ''main'')"

definition contents_url :: "string \<Rightarrow> string \<Rightarrow> string \<Rightarrow> string \<Rightarrow> string" where
  "contents_url owner repo path ref =
     ''https://api.github.com/repos/'' @ owner @ ''/'' @ repo @ ''/contents/'' @ path @ ''?ref='' @ ref"

definition content_POST ::
  "to_lower \<Rightarrow> url_parser \<Rightarrow> process_env \<Rightarrow> github_api \<Rightarrow> string + content_request \<Rightarrow>
   content_json response \<times> gh_request list" where
  "content_POST toLowerCase parse env api body =
     (case body of
        Inl msg \<Rightarrow> (Response 500 (ContentError msg), [])
      | Inr b \<Rightarrow>
          if \<not> truthy (creq_url b) \<or> \<not> truthy (creq_path b) then
            (Response 400 (ContentError ''GitHub URL and file path are required''), [])
          else
            (case parseGitHubUrl parse (the (creq_url b)) of
               None \<Rightarrow> (Response 400 (ContentError ''Invalid GitHub URL''), [])
             | Some (owner, repo) \<Rightarrow>
                 let path = the (creq_path b);
                     ref = branch_or_main (creq_branch b);
                     req = (contents_url owner repo path ref, getGitHubHeaders env)
                 in (case contents_api api req of
                       FetchFailed msg \<Rightarrow> (Response 500 (ContentError msg), [req])
                     | Fetched st body1 \<Rightarrow>
                         if \<not> ok st then
                           (if st = 404 then (Response 404 (ContentError ''File not found''), [req])
                            else (Response 500 (ContentError (''GitHub API error: '' @ string_of_nat st)), [req]))
                         else
                           (case body1 of
                              Inl msg \<Rightarrow> (Response 500 (ContentError msg), [req])
                            | Inr data \<Rightarrow>
                                if data_type data \<noteq> ''file'' then
                                  (Response 400 (ContentError ''Path is not a file''), [req])
                                else
                                  let ext = extension_of toLowerCase path;
                                      isImage = ext \<in> set imageExtensions;
                                      isVideo = ext \<in> set videoExtensions;
                                      isPdf = ext \<in> set pdfExtensions
                                  in if isImage \<or> isVideo \<or> isPdf then
                                       (Response 200
                                          (MediaJson (data_name data) (data_path data) (data_size data) ext
                                             (data_sha data)
                                             (if isImage then Image else if isVideo then Video else Pdf)
                                             (''https://raw.githubusercontent.com/'' @ owner @ ''/'' @ repo @
                                              ''/'' @ ref @ ''/'' @ path)),
                                        [req])
                                     else
                                       (case data_content data of
                                          None \<Rightarrow>
                                            (Response 500 (ContentError ''Unable to decode file content''), [req])
                                        | Some c \<Rightarrow>
                                            (Response 200
                                               (TextJson (data_name data) (data_path data) (data_size data)
                                                  (utf8_decode (Buffer_from_base64 c)) ext (data_sha data)),
                                             [req]))))))"

section \<open>The chapter content endpoint (api/groq/generate-content/route.ts)\<close>

subsection \<open>The values a request body parses to\<close>

text \<open>
  \<open>request.json()\<close> gives whatever value the text of the body denotes; the type
  annotation of the handler is erased at run time. An object is the list of its members
  in the order of the text; of several members with one name, \<open>JSON.parse\<close> keeps the
  last. The numbers are those of the platform (IEEE doubles): \<open>'n\<close> is their type, and
  the two operations on them that the handler needs are parameters, \<open>is_zero\<close> (the
  number is \<open>+0\<close> or \<open>-0\<close>, the falsy numbers that a JSON text can denote) and
  \<open>to_string\<close> (\<open>Number::toString\<close>).
\<close>

datatype 'n json =
  JNull | JBool bool | JNum 'n | JStr string | JArr "'n json list" | JObj "(string \<times> 'n json) list"

record 'n numbers =
  is_zero :: "'n \<Rightarrow> bool"
  to_string :: "'n \<Rightarrow> string"

definition member_of :: "(string \<times> 'n json) list \<Rightarrow> string \<Rightarrow> 'n json option" where
  "member_of ms k = map_of (rev ms) k"

text \<open>
  The properties the handler reads. None of these names is a property of
  \<open>Object.prototype\<close>, \<open>Array.prototype\<close>, \<open>String.prototype\<close>, \<open>Number.prototype\<close> or
  \<open>Boolean.prototype\<close>, so reading one of them gives the member of an object and
  \<open>undefined\<close> (\<open>None\<close>) on an array, a string, a number and a boolean. Reading a
  property of \<open>null\<close> throws; the callers of \<open>get\<close> treat \<open>null\<close> before they call it.
\<close>

datatype body_field = F_repoName | F_chapter | F_files | F_title | F_description | F_id | F_path | F_content

fun field_name :: "body_field \<Rightarrow> string" where
  "field_name F_repoName = ''repoName''"
| "field_name F_chapter = ''chapter''"
| "field_name F_files = ''files''"
| "field_name F_title = ''title''"
| "field_name F_description = ''description''"
| "field_name F_id = ''id''"
| "field_name F_path = ''path''"
| "field_name F_content = ''content''"

fun get :: "'n json \<Rightarrow> body_field \<Rightarrow> 'n json option" where
  "get (JObj ms) f = member_of ms (field_name f)"
| "get JNull f = None"
| "get (JBool b) f = None"
| "get (JNum n) f = None"
| "get (JStr s) f = None"
| "get (JArr xs) f = None"

text \<open>\<open>ToBoolean\<close>: what \<open>!v\<close> and \<open>v || w\<close> test. \<open>None\<close> is \<open>undefined\<close>.\<close>

fun ToBoolean :: "'n numbers \<Rightarrow> 'n json option \<Rightarrow> bool" where
  "ToBoolean num None = False"
| "ToBoolean num (Some JNull) = False"
| "ToBoolean num (Some (JBool b)) = b"
| "ToBoolean num (Some (JNum n)) = (\<not> is_zero num n)"
| "ToBoolean num (Some (JStr s)) = (s \<noteq> [])"
| "ToBoolean num (Some (JArr xs)) = True"
| "ToBoolean num (Some (JObj ms)) = True"

text \<open>
  \<open>ToString\<close>, which a template literal applies to the value of each substitution; the
  result \<open>None\<close> is a \<open>TypeError\<close>. An array is converted by \<open>Array.prototype.join\<close>:
  the elements are converted in turn, \<open>null\<close> to the empty string, and joined with
  commas. An object is converted by \<open>Object.prototype.toString\<close>. An object that has a
  member \<open>toString\<close> of its own hides that method behind a value that cannot be called,
  and \<open>valueOf\<close>, its own or the inherited one, gives no primitive value either: the
  conversion throws.
\<close>

fun ToString :: "'n numbers \<Rightarrow> 'n json \<Rightarrow> string option" where
  "ToString num JNull = Some ''null''"
| "ToString num (JBool b) = Some (if b then ''true'' else ''false'')"
| "ToString num (JNum n) = Some (to_string num n)"
| "ToString num (JStr s) = Some s"
| "ToString num (JArr xs) =
     map_option (join '','')
       (those (map (\<lambda>x. case x of JNull \<Rightarrow> Some [] | _ \<Rightarrow> ToString num x) xs))"
| "ToString num (JObj ms) =
     (if member_of ms ''toString'' = None then Some ''[object Object]'' else None)"

definition substitution :: "'n numbers \<Rightarrow> 'n json option \<Rightarrow> string option" where
  "substitution num v = (case v of None \<Rightarrow> Some ''undefined'' | Some x \<Rightarrow> ToString num x)"

subsection \<open>The prompt\<close>

definition nl :: string where
  "nl = [CHR 0x0A]"

definition dquote :: string where
  "dquote = [CHR 0x22]"

text \<open>
  \<open>f.content.slice(0, 3000)\<close> inside the template literal. A string and an array have a
  method \<open>slice\<close>; on \<open>undefined\<close> and \<open>null\<close> the property access throws, and on every
  other value \<open>slice\<close> is not a function.
\<close>

definition content_slice :: "'n numbers \<Rightarrow> 'n json option \<Rightarrow> string option" where
  "content_slice num c =
     (case c of
        Some (JStr s) \<Rightarrow> Some (take 3000 s)
      | Some (JArr xs) \<Rightarrow> ToString num (JArr (take 3000 xs))
      | _ \<Rightarrow> None)"

text \<open>The callback of \<open>files.map\<close>; \<open>None\<close> is a \<open>TypeError\<close>.\<close>

definition file_section :: "'n numbers \<Rightarrow> 'n json \<Rightarrow> string option" where
  "file_section num f =
     (if f = JNull then None
      else
        (case substitution num (get f F_path) of
           None \<Rightarrow> None
         | Some p \<Rightarrow>
             (case content_slice num (get f F_content) of
                None \<Rightarrow> None
              | Some c \<Rightarrow> Some (''### '' @ p @ nl @ ''```'' @ nl @ c @ nl @ ''```''))))"

text \<open>
  \<open>files?.map(...).join("\n\n") || "No specific files provided."\<close>. The optional chain
  stops at \<open>undefined\<close> and \<open>null\<close>; of the other values only an array has a method
  \<open>map\<close>. The fixed text stands in whenever the left operand is \<open>undefined\<close> or the
  empty string.
\<close>

definition no_files :: string where
  "no_files = ''No specific files provided.''"

definition fileContext :: "'n numbers \<Rightarrow> 'n json option \<Rightarrow> string option" where
  "fileContext num files =
     (case files of
        None \<Rightarrow> Some no_files
      | Some JNull \<Rightarrow> Some no_files
      | Some (JArr fs) \<Rightarrow>
          (case those (map (file_section num) fs) of
             None \<Rightarrow> None
           | Some sections \<Rightarrow>
               (let joined = join (nl @ nl) sections
                in Some (if joined = [] then no_files else joined)))
      | Some _ \<Rightarrow> None)"

definition indent :: string where
  "indent = ''        ''"

text \<open>
  The text of the prompt, from the converted values of \<open>chapter.title\<close>, \<open>repoName\<close> and
  \<open>chapter.description || "No description provided"\<close>, and the context.
\<close>

definition prompt_text :: "string \<Rightarrow> string \<Rightarrow> string \<Rightarrow> string \<Rightarrow> string" where
  "prompt_text title repoName description ctx =
     ''Generate detailed documentation content for the chapter '' @ dquote @ title @
       dquote @ '' of the '' @ dquote @ repoName @ dquote @ '' project.'' @ nl @
     nl @
     indent @ ''Chapter description: '' @ description @ nl @
     nl @
     indent @ ''Relevant source code files:'' @ nl @
     nl @
     indent @ ctx @ nl @
     nl @
     indent @ ''Write comprehensive documentation in Markdown format that:'' @ nl @
     indent @ ''1. Explains concepts clearly for developers'' @ nl @
     indent @ ''2. Includes code examples where relevant'' @ nl @
     indent @ ''3. Provides step-by-step instructions when applicable'' @ nl @
     indent @ ''4. Uses proper markdown formatting (headers, code blocks, lists)'' @ nl @
     indent @ ''5. Is practical and actionable'' @ nl @
     nl @
     indent @ ''Write the documentation content directly, starting with a brief introduction to this section.'' @ nl @
     indent @ ''Do NOT include the chapter title as a header (it will be added separately).'' @ nl @
     indent @ ''Write in English.''"

definition generate_prompt ::
  "'n numbers \<Rightarrow> 'n json \<Rightarrow> 'n json \<Rightarrow> string \<Rightarrow> string option" where
  "generate_prompt num repoName chapter ctx =
     (case substitution num (get chapter F_title) of
        None \<Rightarrow> None
      | Some title \<Rightarrow>
          (case ToString num repoName of
             None \<Rightarrow> None
           | Some name \<Rightarrow>
               (case (if ToBoolean num (get chapter F_description)
                      then substitution num (get chapter F_description)
                      else Some ''No description provided'') of
                  None \<Rightarrow> None
                | Some description \<Rightarrow> Some (prompt_text title name description ctx))))"

definition generate_options :: "string \<Rightarrow> GroqRequestOptions" where
  "generate_options prompt =
     \<lparr>messages =
        [\<lparr>msg_role = System,
          msg_content = ''You are a technical documentation writer. Write clear, helpful documentation in Markdown format.''\<rparr>,
         \<lparr>msg_role = User, msg_content = prompt\<rparr>],
      temperature = Some (1 / 2),
      max_tokens = Some 4000\<rparr>"

subsection \<open>The handler\<close>

text \<open>
  The JSON of the answer: \<open>{error}\<close> with a text of the handler or of the LLM client;
  \<open>{error}\<close> with the message that the engine gives a \<open>TypeError\<close> thrown while the
  body is taken apart or the prompt is built; \<open>{success: true, content, chapterId}\<close>,
  where \<open>chapterId\<close> is \<open>chapter.id\<close>, left out when that is \<open>undefined\<close>.
\<close>

datatype 'n generate_json =
  GenerateError string | GenerateTypeError | GenerateJson string "'n json option"

text \<open>
  The handler. It runs on the server, so it carries the state of the LLM client and the
  list of the requests sent to the LLM service. The body is \<open>Inl msg\<close> when
  \<open>request.json()\<close> rejects with the message \<open>msg\<close>. Taking the properties of \<open>null\<close>
  throws; every other value can be taken apart.
\<close>

definition generate_POST ::
  "'n numbers \<Rightarrow> process_env \<Rightarrow> groq_api \<Rightarrow> string + 'n json \<Rightarrow> key_state \<times> groq_request list \<Rightarrow>
   'n generate_json response \<times> key_state \<times> groq_request list" where
  "generate_POST num env api body = (\<lambda>(st, sent).
     (case body of
        Inl msg \<Rightarrow> (Response 500 (GenerateError msg), st, sent)
      | Inr b \<Rightarrow>
          if b = JNull then (Response 500 GenerateTypeError, st, sent)
          else
            let repoName = get b F_repoName;
                chapter = get b F_chapter;
                files = get b F_files
            in if \<not> ToBoolean num repoName \<or> \<not> ToBoolean num chapter then
                 (Response 400 (GenerateError ''Repository name and chapter are required''), st, sent)
               else
                 (case fileContext num files of
                    None \<Rightarrow> (Response 500 GenerateTypeError, st, sent)
                  | Some ctx \<Rightarrow>
                      (case generate_prompt num (the repoName) (the chapter) ctx of
                         None \<Rightarrow> (Response 500 GenerateTypeError, st, sent)
                       | Some prompt \<Rightarrow>
                           let r = sendToGroq env api (generate_options prompt) (st, sent)
                           in (case fst r of
                                 Failure e \<Rightarrow> (Response 500 (GenerateError e), snd r)
                               | Success c \<Rightarrow>
                                   (Response 200 (GenerateJson c (get (the chapter) F_id)), snd r))))))"

section \<open>The documentation view (components/DocumentationLayout.tsx)\<close>

datatype Chapter =
  Chapter (ch_id: string) (ch_title: string) (ch_description: "string option")
    (ch_children: "Chapter list option")

datatype content_type = Welcome | FileView | ChapterView

text \<open>
  \<open>generatedContent\<close> is a plain object, created as \<open>{}\<close> and copied by spreading. Its
  own properties are a map from the ids to the values stored under them; such a value is
  a text or \<open>undefined\<close> (\<open>None\<close>). A lookup \<open>generatedContent[id]\<close> gives the own
  property when there is one, and otherwise what the object inherits from
  \<open>Object.prototype\<close>: for the names below a function or, for \<open>__proto__\<close>, the
  prototype itself, and \<open>undefined\<close> for every other name.
\<close>

definition Object_prototype :: "string list" where
  "Object_prototype =
     [''constructor'', ''hasOwnProperty'', ''isPrototypeOf'', ''propertyIsEnumerable'',
      ''toLocaleString'', ''toString'', ''valueOf'', ''__proto__'',
      ''__defineGetter__'', ''__defineSetter__'', ''__lookupGetter__'', ''__lookupSetter__'']"

datatype property = Undefined | Text string | Inherited string

type_synonym plain_object = "string \<rightharpoonup> string option"

definition object_get :: "plain_object \<Rightarrow> string \<Rightarrow> property" where
  "object_get obj k =
     (case obj k of
        Some None \<Rightarrow> Undefined
      | Some (Some s) \<Rightarrow> Text s
      | None \<Rightarrow> if k \<in> set Object_prototype then Inherited k else Undefined)"

fun truthy_property :: "property \<Rightarrow> bool" where
  "truthy_property Undefined = False"
| "truthy_property (Text s) = (s \<noteq> [])"
| "truthy_property (Inherited k) = True"

definition property_of :: "string option \<Rightarrow> property" where
  "property_of v = (case v of None \<Rightarrow> Undefined | Some s \<Rightarrow> Text s)"

text \<open>In \<open>chapterContent\<close>, \<open>Undefined\<close> is also a field that is not there.\<close>

record ContentState =
  cs_type :: content_type
  cs_fileNode :: "FileNode option"
  cs_chapterId :: "string option"
  cs_chapterContent :: property
  cs_isLoading :: "bool option"
  cs_error :: "string option"

record DocGenerationState =
  isGenerating :: bool
  isGeneratingContent :: bool
  currentGeneratingChapter :: "string option"
  chapters :: "Chapter list"
  generatedContent :: plain_object
  doc_error :: "string option"

record ui_state =
  activeContent :: ContentState
  leftSidebarOpen :: bool
  docState :: DocGenerationState

text \<open>The fields of \<open>RepoInfo\<close> that the component reads.\<close>

record RepoInfo =
  repo_url :: string
  repo_name :: string
  repo_branch :: string
  repo_tree :: "FileNode list"

definition keyFilePatterns :: "string list" where
  "keyFilePatterns =
     [''README.md'', ''readme.md'', ''README'',
      ''package.json'', ''composer.json'', ''requirements.txt'', ''Cargo.toml'', ''go.mod'',
      ''index.js'', ''index.ts'', ''main.js'', ''main.ts'', ''app.js'', ''app.ts'',
      ''src/index.js'', ''src/index.ts'', ''src/main.js'', ''src/main.ts'', ''src/App.tsx'', ''src/App.jsx'',
      ''.env.example'', ''docker-compose.yml'', ''Dockerfile'']"

fun findFiles :: "to_lower \<Rightarrow> FileNode \<Rightarrow> FileNode list" where
  "findFiles toLowerCase (FileNode i n t p cs) =
     (if t = File then
        (if \<exists>k\<in>set keyFilePatterns. toLowerCase n = toLowerCase k \<or> toLowerCase p = toLowerCase k
         then [FileNode i n t p cs] else [])
      else case cs of None \<Rightarrow> [] | Some kids \<Rightarrow> concat (map (findFiles toLowerCase) kids))"

text \<open>
  The body of a request to the generation endpoint, as the component builds it.
\<close>

record FileInfo =
  file_path :: string
  file_content :: string

record ChapterInfo =
  chapter_id :: string
  chapter_title :: string
  chapter_description :: "string option"

text \<open>
  The two endpoints of the application as the browser sees them. A reply of the content
  endpoint is the status and \<open>data.content\<close>; a reply of the generation endpoint is the
  status, \<open>data.content\<close> and \<open>data.error\<close>. \<open>Inl msg\<close> is a body that
  \<open>response.json()\<close> rejects.
\<close>

record generate_reply =
  reply_content :: "string option"
  reply_error :: "string option"

record generate_call =
  call_repoName :: string
  call_chapter :: ChapterInfo
  call_files :: "FileInfo list"

datatype client_request = ContentFetch content_request | GenerateFetch generate_call

record app_api =
  content_endpoint :: "content_request \<Rightarrow> (string option) fetched"
  generate_endpoint :: "generate_call \<Rightarrow> generate_reply fetched"

fun fetchKeyFiles ::
  "app_api \<Rightarrow> RepoInfo \<Rightarrow> FileNode list \<Rightarrow> FileInfo list \<times> client_request list" where
  "fetchKeyFiles api repoInfo [] = ([], [])"
| "fetchKeyFiles api repoInfo (node # nodes) =
     (let req = \<lparr>creq_url = Some (repo_url repoInfo), creq_path = Some (fn_path node),
                 creq_branch = Some (repo_branch repoInfo)\<rparr>;
          got = (case content_endpoint api req of
                   FetchFailed msg \<Rightarrow> []
                 | Fetched st body \<Rightarrow>
                     (case body of
                        Inl msg \<Rightarrow> []
                      | Inr c \<Rightarrow>
                          if ok st \<and> truthy c
                          then [\<lparr>file_path = fn_path node, file_content = the c\<rparr>] else []));
          rest = fetchKeyFiles api repoInfo nodes
      in (got @ fst rest, ContentFetch req # snd rest))"

definition collectKeyFiles ::
  "to_lower \<Rightarrow> app_api \<Rightarrow> RepoInfo \<Rightarrow> FileInfo list \<times> client_request list" where
  "collectKeyFiles toLowerCase api repoInfo =
     fetchKeyFiles api repoInfo
       (take 8 (concat (map (findFiles toLowerCase) (repo_tree repoInfo))))"

text \<open>The state of the component when it is mounted.\<close>

definition initial_ui :: ui_state where
  "initial_ui =
     \<lparr>activeContent = \<lparr>cs_type = Welcome, cs_fileNode = None, cs_chapterId = None,
                        cs_chapterContent = Undefined, cs_isLoading = None, cs_error = None\<rparr>,
      leftSidebarOpen = False,
      docState = \<lparr>isGenerating = False, isGeneratingContent = False,
                  currentGeneratingChapter = None, chapters = [],
                  generatedContent = Map.empty, doc_error = None\<rparr>\<rparr>"

definition chapter_call :: "RepoInfo \<Rightarrow> Chapter \<Rightarrow> FileInfo list \<Rightarrow> generate_call" where
  "chapter_call repoInfo chapter keyFiles =
     \<lparr>call_repoName = repo_name repoInfo,
      call_chapter = \<lparr>chapter_id = ch_id chapter, chapter_title = ch_title chapter,
                      chapter_description = ch_description chapter\<rparr>,
      call_files = keyFiles\<rparr>"

text \<open>
  \<open>generateSingleChapterContent\<close>: the text of the chapter, or \<open>None\<close> for the \<open>null\<close> it
  returns when the request fails.
\<close>

definition generateSingleChapterContent ::
  "app_api \<Rightarrow> RepoInfo \<Rightarrow> Chapter \<Rightarrow> FileInfo list \<Rightarrow> string option" where
  "generateSingleChapterContent api repoInfo chapter keyFiles =
     (case generate_endpoint api (chapter_call repoInfo chapter keyFiles) of
        FetchFailed msg \<Rightarrow> None
      | Fetched status body \<Rightarrow>
          (case body of
             Inl msg \<Rightarrow> None
           | Inr data \<Rightarrow> if \<not> ok status then None else reply_content data))"

text \<open>
  One round of the loop over the chapters in \<open>generateDocumentation\<close>: the chapter is
  announced, its content is requested, and a content that is not falsy goes into the
  cache.
\<close>

definition generate_one ::
  "app_api \<Rightarrow> RepoInfo \<Rightarrow> FileInfo list \<Rightarrow> ui_state \<Rightarrow> Chapter \<Rightarrow>
   ui_state \<times> client_request list" where
  "generate_one api repoInfo keyFiles st chapter =
     (let st1 = st\<lparr>docState := (docState st)\<lparr>currentGeneratingChapter := Some (ch_title chapter)\<rparr>\<rparr>;
          content = generateSingleChapterContent api repoInfo chapter keyFiles;
          st2 = (if truthy content
                 then st1\<lparr>docState := (docState st1)
                         \<lparr>generatedContent := (generatedContent (docState st1))(ch_id chapter \<mapsto> content)\<rparr>\<rparr>
                 else st1)
      in (st2, [GenerateFetch (chapter_call repoInfo chapter keyFiles)]))"

definition chapter_view :: "string \<Rightarrow> ContentState" where
  "chapter_view cid =
     \<lparr>cs_type = ChapterView, cs_fileNode = None, cs_chapterId = Some cid,
      cs_chapterContent = Undefined, cs_isLoading = None, cs_error = None\<rparr>"

text \<open>
  \<open>generateChapterContent\<close>: the new state of the component and the requests it has
  issued. The test on the cache is a test for a truthy value of the lookup.
\<close>

definition generateChapterContent ::
  "to_lower \<Rightarrow> app_api \<Rightarrow> RepoInfo \<Rightarrow> ui_state \<Rightarrow> Chapter \<Rightarrow> ui_state \<times> client_request list" where
  "generateChapterContent toLowerCase api repoInfo st chapter =
     (let cid = ch_id chapter in
      if truthy_property (object_get (generatedContent (docState st)) cid) then
        (st\<lparr>activeContent :=
              (chapter_view cid)\<lparr>cs_chapterContent := object_get (generatedContent (docState st)) cid\<rparr>\<rparr>,
         [])
      else
        let st1 = st\<lparr>activeContent := (chapter_view cid)\<lparr>cs_isLoading := Some True\<rparr>,
                     leftSidebarOpen := False\<rparr>;
            kf = collectKeyFiles toLowerCase api repoInfo;
            call = chapter_call repoInfo chapter (fst kf);
            reqs = snd kf @ [GenerateFetch call];
            failed = (\<lambda>msg. (st1\<lparr>activeContent := (chapter_view cid)\<lparr>cs_error := Some msg\<rparr>\<rparr>, reqs))
        in (case generate_endpoint api call of
              FetchFailed msg \<Rightarrow> failed msg
            | Fetched status body \<Rightarrow>
                (case body of
                   Inl msg \<Rightarrow> failed msg
                 | Inr data \<Rightarrow>
                     if \<not> ok status then
                       failed (if truthy (reply_error data) then the (reply_error data)
                               else ''Failed to generate content'')
                     else
                       (st1\<lparr>docState := (docState st1)
                               \<lparr>generatedContent :=
                                  (generatedContent (docState st1))(cid \<mapsto> reply_content data)\<rparr>,
                            activeContent :=
                              (chapter_view cid)\<lparr>cs_chapterContent := property_of (reply_content data)\<rparr>\<rparr>,
                        reqs))))"

section \<open>Notions used in the statements\<close>

subsection \<open>The LLM client\<close>

text \<open>
  From the \<open>k\<close>-th request of the process on, every request, whatever it carries, is
  answered with 429.
\<close>

definition rate_limited_from :: "groq_api \<Rightarrow> nat \<Rightarrow> bool" where
  "rate_limited_from api k = (\<forall>n req. k \<le> n \<longrightarrow> (\<exists>b. api n req = Reply 429 b))"

definition exhausted_msg :: string where
  "exhausted_msg = ''All API keys exhausted due to rate limiting. Please try again later.''"

text \<open>
  A configuration with the two credentials \<open>k0\<close> and \<open>k1\<close>, and a service that answers
  the second request it ever receives with a completion and every other request with 429.
\<close>

definition env2 :: process_env where
  "env2 = \<lparr>GROQ_API_KEY = Some ''k0'', GROQ_API_KEY_ALTERNATIVE_1 = Some ''k1'',
           GROQ_API_KEY_ALTERNATIVE_2 = None, GROQ_API_KEY_ALTERNATIVE_3 = None,
           GITHUB_TOKEN = None\<rparr>"

definition api_second_ok :: groq_api where
  "api_second_ok n req = (if n = 1 then Reply 200 (Body (Some ''text'')) else Reply 429 (Body None))"

definition api_429 :: groq_api where
  "api_429 n req = Reply 429 (Body None)"

definition api_503 :: groq_api where
  "api_503 n req = Reply 503 (Body None)"

definition opts0 :: GroqRequestOptions where
  "opts0 = \<lparr>messages = [], temperature = None, max_tokens = None\<rparr>"

subsection \<open>The file tree\<close>

text \<open>The paths of all the nodes of a hierarchy.\<close>

fun paths_of :: "FileNode \<Rightarrow> string list" where
  "paths_of (FileNode i n k p cs) =
     p # (case cs of None \<Rightarrow> [] | Some kids \<Rightarrow> concat (map paths_of kids))"

text \<open>
  The order the sort establishes, whatever \<open>localeCompare\<close> does: by depth, and at the
  same depth no file before a folder.
\<close>

definition precedes :: "GitHubTreeItem \<Rightarrow> GitHubTreeItem \<Rightarrow> bool" where
  "precedes a b =
     (depth (item_path a) < depth (item_path b) \<or>
      (depth (item_path a) = depth (item_path b) \<and> (item_type b = Tree \<longrightarrow> item_type a = Tree)))"

text \<open>The node and the state of the loop right after \<open>nodeMap.set\<close>.\<close>

definition new_node :: "GitHubTreeItem \<Rightarrow> node_obj" where
  "new_node item =
     \<lparr>node_id = item_sha item, node_name = last (split CHR ''/'' (item_path item)),
      node_kind = (if item_type item = Tree then Folder else File),
      node_path = item_path item,
      node_children = (if item_type item = Tree then Some [] else None)\<rparr>"

definition registered :: "build_state \<Rightarrow> GitHubTreeItem \<Rightarrow> build_state" where
  "registered s item =
     s\<lparr>store := store s @ [new_node item],
       nodeMap := (nodeMap s)(item_path item \<mapsto> length (store s))\<rparr>"

text \<open>
  The invariant of the loop, over the set \<open>I\<close> of the items handled so far: a node in
  \<open>root\<close> has an empty parent path; a node with a \<open>children\<close> array comes from a
  tree item, and each of its children was created after it and has its path as parent
  path; \<open>nodeMap\<close> sends a path to a node with that path.
\<close>

definition tree_path :: "GitHubTreeItem set \<Rightarrow> string \<Rightarrow> bool" where
  "tree_path I p = (\<exists>t\<in>I. item_type t = Tree \<and> item_path t = p)"

definition roots_ok :: "build_state \<Rightarrow> bool" where
  "roots_ok s = (\<forall>a\<in>set (root s). a < length (store s) \<and> parentPath (node_path (store s ! a)) = [])"

definition children_ok :: "GitHubTreeItem set \<Rightarrow> build_state \<Rightarrow> bool" where
  "children_ok I s =
     (\<forall>p<length (store s). \<forall>cs. node_children (store s ! p) = Some cs \<longrightarrow>
        tree_path I (node_path (store s ! p)) \<and>
        (\<forall>a\<in>set cs. p < a \<and> a < length (store s) \<and>
           parentPath (node_path (store s ! a)) \<noteq> [] \<and>
           parentPath (node_path (store s ! a)) = node_path (store s ! p)))"

definition map_ok :: "build_state \<Rightarrow> bool" where
  "map_ok s = (\<forall>k a. nodeMap s k = Some a \<longrightarrow> a < length (store s) \<and> node_path (store s ! a) = k)"

definition build_inv :: "GitHubTreeItem set \<Rightarrow> build_state \<Rightarrow> bool" where
  "build_inv I s = (roots_ok s \<and> children_ok I s \<and> map_ok s)"

definition attached_path :: "GitHubTreeItem set \<Rightarrow> string \<Rightarrow> bool" where
  "attached_path I q = (parentPath q \<noteq> [] \<and> tree_path I (parentPath q))"

text \<open>The flat list \<open>a/b.txt\<close> (blob), \<open>a\<close> (tree), \<open>c.txt\<close> (blob), and one with an orphan.\<close>

definition blob :: "string \<Rightarrow> string \<Rightarrow> GitHubTreeItem" where
  "blob p sha = \<lparr>item_path = p, item_mode = ''100644'', item_type = Blob, item_sha = sha,
                 item_size = Some 1\<rparr>"

definition folder :: "string \<Rightarrow> string \<Rightarrow> GitHubTreeItem" where
  "folder p sha = \<lparr>item_path = p, item_mode = ''040000'', item_type = Tree, item_sha = sha,
                   item_size = None\<rparr>"

definition example_items :: "string \<Rightarrow> string \<Rightarrow> string \<Rightarrow> GitHubTreeItem list" where
  "example_items s1 s2 s3 = [blob ''a/b.txt'' s1, folder ''a'' s2, blob ''c.txt'' s3]"

definition example_tree :: "string \<Rightarrow> string \<Rightarrow> string \<Rightarrow> FileNode list" where
  "example_tree s1 s2 s3 =
     [FileNode s2 ''a'' Folder ''a'' (Some [FileNode s1 ''b.txt'' File ''a/b.txt'' None]),
      FileNode s3 ''c.txt'' File ''c.txt'' None]"

definition orphan_items :: "GitHubTreeItem list" where
  "orphan_items = [blob ''x/y.txt'' ''s1'', blob ''c.txt'' ''s2'']"

text \<open>A stand-in for \<open>localeCompare\<close> in the examples: byte-wise comparison.\<close>

fun compare_bytes :: "string \<Rightarrow> string \<Rightarrow> int" where
  "compare_bytes [] [] = 0"
| "compare_bytes [] (y # ys) = - 1"
| "compare_bytes (x # xs) [] = 1"
| "compare_bytes (x # xs) (y # ys) =
     (if (of_char x :: nat) < of_char y then - 1
      else if (of_char y :: nat) < of_char x then 1
      else compare_bytes xs ys)"

subsection \<open>The endpoints\<close>

text \<open>
  A stand-in for \<open>toLowerCase\<close> in the examples: the letters A to Z are mapped to a to
  z, as the method does on a text of ASCII characters.
\<close>

definition lower_char :: "char \<Rightarrow> char" where
  "lower_char c =
     (if (65::nat) \<le> of_char c \<and> of_char c \<le> (90::nat) then char_of (of_char c + (32::nat)) else c)"

definition ascii_lower :: to_lower where
  "ascii_lower s = map lower_char s"

text \<open>
  A stand-in for the URL parser in the examples. On a string \<open>https://host/path\<close> it
  gives the host and the path, as \<open>new URL\<close> does for such a string; it rejects
  everything else.
\<close>

definition simple_url :: url_parser where
  "simple_url u =
     (if is_prefix ''https://'' u then
        (let rest = drop 8 u;
             host = takeWhile (\<lambda>c. c \<noteq> CHR ''/'') rest;
             path = dropWhile (\<lambda>c. c \<noteq> CHR ''/'') rest
         in if host = [] then None else Some (host, if path = [] then ''/'' else path))
      else None)"

definition no_env :: process_env where
  "no_env = \<lparr>GROQ_API_KEY = None, GROQ_API_KEY_ALTERNATIVE_1 = None,
             GROQ_API_KEY_ALTERNATIVE_2 = None, GROQ_API_KEY_ALTERNATIVE_3 = None,
             GITHUB_TOKEN = None\<rparr>"

text \<open>A source-hosting service that knows no repository, and one that serves \<open>README\<close>.\<close>

definition github_404 :: github_api where
  "github_404 =
     \<lparr>repo_api = (\<lambda>r. Fetched 404 (Inl ''no body'')),
      branch_api = (\<lambda>r. Fetched 404 (Inl ''no body'')),
      tree_api = (\<lambda>r. Fetched 404 (Inl ''no body'')),
      contents_api = (\<lambda>r. Fetched 404 (Inl ''no body''))\<rparr>"

definition readme_data :: contents_data where
  "readme_data =
     \<lparr>data_type = ''file'', data_name = ''README'', data_path = ''README'', data_size = 13,
      data_sha = ''980a0d5f'', data_content = Some (''SGVsbG8gV29ybGQhCg=='' @ [CHR 0x0A])\<rparr>"

definition github_readme :: github_api where
  "github_readme =
     \<lparr>repo_api = (\<lambda>r. Fetched 200 (Inr ''master'')),
      branch_api = (\<lambda>r. Fetched 200 (Inr ''7fd1a60b'')),
      tree_api = (\<lambda>r. Fetched 200 (Inr ([blob ''README'' ''980a0d5f''], False))),
      contents_api = (\<lambda>r. Fetched 200 (Inr readme_data))\<rparr>"

definition hello_world_url :: string where
  "hello_world_url = ''https://github.com/octocat/Hello-World''"



subsection \<open>Chapter content\<close>

definition api_ok :: groq_api where
  "api_ok n req = Reply 200 (Body (Some ''Body of the chapter.''))"

text \<open>
  A stand-in for the numbers in the examples: the integers, which a JSON text denotes
  exactly, written in decimal.
\<close>

definition int_numbers :: "int numbers" where
  "int_numbers =
     \<lparr>is_zero = (\<lambda>n. n = 0),
      to_string = (\<lambda>n. if n < 0 then ''-'' @ string_of_nat (nat (- n)) else string_of_nat (nat n))\<rparr>"

text \<open>
  A chapter as the component describes it in the body of its request, and bodies for
  it: with the name of the repository or with \<open>name\<close> in its place, and with the files
  \<open>fs\<close>.
\<close>

definition intro_chapter :: ChapterInfo where
  "intro_chapter = \<lparr>chapter_id = ''intro'', chapter_title = ''Introduction'', chapter_description = None\<rparr>"

definition intro_json :: "int json" where
  "intro_json = JObj [(''id'', JStr ''intro''), (''title'', JStr ''Introduction'')]"

definition intro_body :: "int json \<Rightarrow> int json \<Rightarrow> int json" where
  "intro_body name fs = JObj [(''repoName'', name), (''chapter'', intro_json), (''files'', fs)]"

text \<open>The values that \<open>ToBoolean\<close> turns into false.\<close>

definition falsy :: "'n numbers \<Rightarrow> 'n json option \<Rightarrow> bool" where
  "falsy num v =
     (v = None \<or> v = Some JNull \<or> v = Some (JBool False) \<or> v = Some (JStr []) \<or>
      (\<exists>n. v = Some (JNum n) \<and> is_zero num n))"

text \<open>
  A browser-side view of the application in which no key file can be fetched and the
  generation endpoint delivers a text.
\<close>

definition app_ok :: app_api where
  "app_ok =
     \<lparr>content_endpoint = (\<lambda>r. Fetched 404 (Inr None)),
      generate_endpoint =
        (\<lambda>c. Fetched 200 (Inr \<lparr>reply_content = Some ''Fresh text.'', reply_error = None\<rparr>))\<rparr>"

definition empty_repo :: RepoInfo where
  "empty_repo = \<lparr>repo_url = hello_world_url, repo_name = ''Hello-World'', repo_branch = ''master'',
                  repo_tree = []\<rparr>"

text \<open>
  Every value stored in the cache is a text that is not empty; and a generation endpoint
  that answers a success only with a content that is not empty, as the handler of this
  repository does.
\<close>

definition cache_texts_nonempty :: "ui_state \<Rightarrow> bool" where
  "cache_texts_nonempty st = (\<forall>k v. generatedContent (docState st) k = Some v \<longrightarrow> truthy v)"

definition replies_with_content :: "app_api \<Rightarrow> bool" where
  "replies_with_content api =
     (\<forall>call status data.
        generate_endpoint api call = Fetched status (Inr data) \<and> ok status \<longrightarrow>
          truthy (reply_content data))"

text \<open>
  The states of the component: the state when it is mounted; the state after a round
  of the loop of \<open>generateDocumentation\<close>, and after \<open>generateChapterContent\<close>; and any
  state that differs from one of these in something else than the cache, for no other
  code of the component assigns to \<open>generatedContent\<close>.
\<close>

inductive reachable :: "to_lower \<Rightarrow> app_api \<Rightarrow> RepoInfo \<Rightarrow> ui_state \<Rightarrow> bool"
  for toLowerCase api repoInfo where
  mounted: "reachable toLowerCase api repoInfo initial_ui"
| round: "reachable toLowerCase api repoInfo st \<Longrightarrow>
          reachable toLowerCase api repoInfo (fst (generate_one api repoInfo keyFiles st chapter))"
| click: "reachable toLowerCase api repoInfo st \<Longrightarrow>
          reachable toLowerCase api repoInfo (fst (generateChapterContent toLowerCase api repoInfo st chapter))"
| other: "reachable toLowerCase api repoInfo st \<Longrightarrow>
          generatedContent (docState st') = generatedContent (docState st) \<Longrightarrow>
          reachable toLowerCase api repoInfo st'"

subsection \<open>Re-encoding a decoded text\<close>

text \<open>
  The way back, which the claim about the round trip speaks of: \<open>Buffer.from(text, "utf-8")\<close>
  and \<open>buf.toString("base64")\<close>. A lone surrogate in a string is encoded as U+FFFD.
\<close>

definition scalar :: "nat \<Rightarrow> bool" where
  "scalar cp = (cp < 55296 \<or> (57344 \<le> cp \<and> cp < 1114112))"

definition utf8_encode_cp :: "nat \<Rightarrow> nat list" where
  "utf8_encode_cp cp =
     (if cp < 128 then [cp]
      else if cp < 2048 then [192 + cp div 64, 128 + cp mod 64]
      else if cp < 65536 then
        (if 55296 \<le> cp \<and> cp < 57344 then [239, 191, 189]
         else [224 + cp div 4096, 128 + (cp div 64) mod 64, 128 + cp mod 64])
      else [240 + cp div 262144, 128 + (cp div 4096) mod 64, 128 + (cp div 64) mod 64,
            128 + cp mod 64])"

definition utf8_encode :: "js_text \<Rightarrow> nat list" where
  "utf8_encode t = concat (map utf8_encode_cp t)"

definition b64_char :: "nat \<Rightarrow> char" where
  "b64_char n = b64_alphabet ! n"

fun b64_encode :: "nat list \<Rightarrow> string" where
  "b64_encode (x # y # z # rest) =
     [b64_char (x div 4), b64_char ((x mod 4) * 16 + y div 16),
      b64_char ((y mod 16) * 4 + z div 64), b64_char (z mod 64)] @ b64_encode rest"
| "b64_encode [x, y] =
     [b64_char (x div 4), b64_char ((x mod 4) * 16 + y div 16), b64_char ((y mod 16) * 4), CHR ''='']"
| "b64_encode [x] = [b64_char (x div 4), b64_char ((x mod 4) * 16), CHR ''='', CHR ''='']"
| "b64_encode [] = []"

text \<open>The sextets of a sequence of bytes.\<close>

fun sextets_of :: "nat list \<Rightarrow> nat list" where
  "sextets_of (x # y # z # rest) =
     [x div 4, (x mod 4) * 16 + y div 16, (y mod 16) * 4 + z div 64, z mod 64] @ sextets_of rest"
| "sextets_of [x, y] = [x div 4, (x mod 4) * 16 + y div 16, (y mod 16) * 4]"
| "sextets_of [x] = [x div 4, (x mod 4) * 16]"
| "sextets_of [] = []"

text \<open>A file of one byte, 0xFF, as the source-hosting API delivers it.\<close>

definition binary_data :: contents_data where
  "binary_data =
     \<lparr>data_type = ''file'', data_name = ''blob.bin'', data_path = ''blob.bin'', data_size = 1,
      data_sha = ''ce542efa'', data_content = Some ''/w==''\<rparr>"

definition github_binary :: github_api where
  "github_binary =
     \<lparr>repo_api = (\<lambda>r. Fetched 200 (Inr ''master'')),
      branch_api = (\<lambda>r. Fetched 200 (Inr ''7fd1a60b'')),
      tree_api = (\<lambda>r. Fetched 200 (Inr ([blob ''blob.bin'' ''ce542efa''], False))),
      contents_api = (\<lambda>r. Fetched 200 (Inr binary_data))\<rparr>"

section \<open>The LLM client: rotation of the credentials\<close>

lemma push_key_nonempty: "[] \<notin> set keys \<Longrightarrow> [] \<notin> set (push_key v keys)"
  by (auto simp: push_key_def split: option.splits)

lemma getApiKeys_nonempty: "[] \<notin> set (getApiKeys env)"
  unfolding getApiKeys_def by (intro push_key_nonempty) simp

lemma getApiKeys_nth_nonempty: "i < length (getApiKeys env) \<Longrightarrow> getApiKeys env ! i \<noteq> []"
  using getApiKeys_nonempty [of env] by (metis nth_mem)

lemma getApiKeys_at_most_four: "length (getApiKeys env) \<le> 4"
  by (simp add: getApiKeys_def push_key_def split: option.splits)

lemma getCurrentApiKey_valid:
  "currentApiKeyIndex st < length (getApiKeys env) \<Longrightarrow>
   getCurrentApiKey env st = (Some (getApiKeys env ! currentApiKeyIndex st), st)"
  by (auto simp: getCurrentApiKey_def Let_def)

lemma getCurrentApiKey_reset:
  "getApiKeys env \<noteq> [] \<Longrightarrow> length (getApiKeys env) \<le> currentApiKeyIndex st \<Longrightarrow>
   getCurrentApiKey env st =
     (Some (getApiKeys env ! 0), st\<lparr>currentApiKeyIndex := 0, allKeysExhausted := True\<rparr>)"
  by (simp add: getCurrentApiKey_def Let_def)

text \<open>
  A request loop that meets nothing but 429 walks from the current credential to the last
  one and gives up there.
\<close>

lemma rate_limited_from_later:
  "rate_limited_from api k \<Longrightarrow> k \<le> k' \<Longrightarrow> rate_limited_from api k'"
  by (simp add: rate_limited_from_def)

lemma attemptRequest_all_429:
  "rate_limited_from api (length sent) \<Longrightarrow>
   currentApiKeyIndex st < length (getApiKeys env) \<Longrightarrow> \<not> allKeysExhausted st \<Longrightarrow>
    attemptRequest env api ms t mt (st, sent) =
      (Failure exhausted_msg,
       st\<lparr>currentApiKeyIndex := 0, allKeysExhausted := True\<rparr>,
       sent @ map (mk_request ms t mt) (drop (currentApiKeyIndex st) (getApiKeys env)))"
proof (induction "length (getApiKeys env) - currentApiKeyIndex st" arbitrary: st sent)
  case 0
  then show ?case by simp
next
  case (Suc d)
  let ?keys = "getApiKeys env"
  let ?i = "currentApiKeyIndex st"
  let ?req = "mk_request ms t mt (?keys ! ?i)"
  from Suc.prems(1) obtain b where reply: "api (length sent) ?req = Reply 429 b"
    unfolding rate_limited_from_def by blast
  have key: "?keys ! ?i \<noteq> []" using Suc.prems(2) by (rule getApiKeys_nth_nonempty)
  have cur: "getCurrentApiKey env st = (Some (?keys ! ?i), st)"
    using Suc.prems(2) by (rule getCurrentApiKey_valid)
  have dr: "drop ?i ?keys = ?keys ! ?i # drop (Suc ?i) ?keys"
    using Suc.prems(2) by (simp add: Cons_nth_drop_Suc)
  show ?case
  proof (cases "Suc ?i < length ?keys")
    case True
    let ?st2 = "st\<lparr>currentApiKeyIndex := Suc ?i\<rparr>"
    have sw: "switchToNextKey env st = (True, ?st2)"
      using True by (simp add: switchToNextKey_def Let_def)
    have step: "attemptRequest env api ms t mt (st, sent) =
                attemptRequest env api ms t mt (?st2, sent @ [?req])"
      using cur reply key sw Suc.prems(3) by (subst attemptRequest.simps) (simp add: Let_def)
    have d: "d = length ?keys - currentApiKeyIndex ?st2" using Suc.hyps(2) by simp
    have later: "rate_limited_from api (length (sent @ [?req]))"
      using Suc.prems(1) by (rule rate_limited_from_later) simp
    have v2: "currentApiKeyIndex ?st2 < length ?keys" using True by simp
    have e2: "\<not> allKeysExhausted ?st2" using Suc.prems(3) by simp
    from Suc.hyps(1) [OF d later v2 e2]
    have "attemptRequest env api ms t mt (?st2, sent @ [?req]) =
      (Failure exhausted_msg, ?st2\<lparr>currentApiKeyIndex := 0, allKeysExhausted := True\<rparr>,
       (sent @ [?req]) @ map (mk_request ms t mt) (drop (Suc ?i) ?keys))"
      by simp
    with step dr show ?thesis by simp
  next
    case False
    have sw: "switchToNextKey env st =
                (False, st\<lparr>currentApiKeyIndex := 0, allKeysExhausted := True\<rparr>)"
      using False by (simp add: switchToNextKey_def Let_def)
    have "drop (Suc ?i) ?keys = []" using False by simp
    with dr have dr1: "drop ?i ?keys = [?keys ! ?i]" by simp
    show ?thesis
      using cur reply key sw Suc.prems(3) dr1
      by (subst attemptRequest.simps) (simp add: Let_def exhausted_msg_def)
  qed
qed

text \<open>
  With an index beyond the list, the key selection itself falls back to the first
  credential and raises the flag, so the 429 that follows is not rotated on: one attempt.
\<close>

lemma attemptRequest_index_beyond:
  assumes "rate_limited_from api (length sent)" "getApiKeys env \<noteq> []"
    "length (getApiKeys env) \<le> currentApiKeyIndex st"
  shows "\<exists>msg. attemptRequest env api ms t mt (st, sent) =
      (Failure msg,
       st\<lparr>currentApiKeyIndex := 0, allKeysExhausted := True\<rparr>,
       sent @ [mk_request ms t mt (getApiKeys env ! 0)])"
proof -
  let ?keys = "getApiKeys env"
  let ?req = "mk_request ms t mt (?keys ! 0)"
  from assms(1) obtain b where reply: "api (length sent) ?req = Reply 429 b"
    unfolding rate_limited_from_def by blast
  have key: "?keys ! 0 \<noteq> []" using assms(2) by (simp add: getApiKeys_nth_nonempty)
  have cur: "getCurrentApiKey env st =
       (Some (?keys ! 0), st\<lparr>currentApiKeyIndex := 0, allKeysExhausted := True\<rparr>)"
    using assms(2,3) by (rule getCurrentApiKey_reset)
  show ?thesis
    using cur reply key
    by (subst attemptRequest.simps) (cases b; simp add: Let_def ok_def)
qed

text \<open>
  Claim C1, as amended. With N > 0 credentials configured and 429 for every request from
  now on, a top-level \<open>sendToGroq\<close> that starts with \<open>currentApiKeyIndex = i\<close>, \<open>i < N\<close>, sends one
  request with each of the credentials at the positions \<open>i, ..., N - 1\<close>, in this order
  and no other, fails with the message that all keys are exhausted, and leaves the index
  at 0 with the flag raised. These are all N credentials when \<open>i = 0\<close>. Whatever the
  index is at the start, the call sends at most N requests.
\<close>

theorem sendToGroq_all_rate_limited:
  assumes "rate_limited_from api (length sent)" and "getApiKeys env \<noteq> []"
  shows "(currentApiKeyIndex st < length (getApiKeys env) \<longrightarrow>
            sendToGroq env api options (st, sent) =
              (Failure exhausted_msg,
               st\<lparr>currentApiKeyIndex := 0, allKeysExhausted := True\<rparr>,
               sent @ map (request_with options) (drop (currentApiKeyIndex st) (getApiKeys env)))) \<and>
         (currentApiKeyIndex st = 0 \<longrightarrow>
            snd (snd (sendToGroq env api options (st, sent))) =
              sent @ map (request_with options) (getApiKeys env)) \<and>
         length (snd (snd (sendToGroq env api options (st, sent)))) \<le>
           length sent + length (getApiKeys env)"
proof -
  let ?keys = "getApiKeys env"
  let ?st0 = "st\<lparr>allKeysExhausted := False\<rparr>"
  have rw: "mk_request (messages options) (effective_temperature options)
              (effective_max_tokens options) = request_with options"
    by (rule ext) (simp add: request_with_def)
  have valid: "sendToGroq env api options (st, sent) =
              (Failure exhausted_msg,
               st\<lparr>currentApiKeyIndex := 0, allKeysExhausted := True\<rparr>,
               sent @ map (request_with options) (drop (currentApiKeyIndex st) ?keys))"
    if "currentApiKeyIndex st < length ?keys"
    using attemptRequest_all_429 [OF assms(1), of ?st0 env "messages options"
        "effective_temperature options" "effective_max_tokens options"] that
    by (simp add: sendToGroq_def rw)
  have bound: "length (snd (snd (sendToGroq env api options (st, sent)))) \<le> length sent + length ?keys"
  proof (cases "currentApiKeyIndex st < length ?keys")
    case True
    from valid [OF True] show ?thesis by simp
  next
    case False
    then have "length ?keys \<le> currentApiKeyIndex ?st0" by simp
    from attemptRequest_index_beyond [OF assms this, of "messages options"
        "effective_temperature options" "effective_max_tokens options"]
    obtain msg where "sendToGroq env api options (st, sent) =
        (Failure msg, ?st0\<lparr>currentApiKeyIndex := 0, allKeysExhausted := True\<rparr>,
         sent @ [mk_request (messages options) (effective_temperature options)
                   (effective_max_tokens options) (?keys ! 0)])"
      by (auto simp: sendToGroq_def)
    with assms(2) show ?thesis by (cases ?keys) simp_all
  qed
  from valid bound assms(2) show ?thesis by auto
qed

theorem sendToGroq_all_rate_limited_witness:
  "sendToGroq env2 api_second_ok opts0
       (\<lparr>currentApiKeyIndex = 1, allKeysExhausted = False\<rparr>,
        [request_with opts0 ''k0'', request_with opts0 ''k1'']) =
     (Failure exhausted_msg, \<lparr>currentApiKeyIndex = 0, allKeysExhausted = True\<rparr>,
      [request_with opts0 ''k0'', request_with opts0 ''k1'', request_with opts0 ''k1'']) \<and>
   snd (snd (sendToGroq env2 api_429 opts0 (initial_key_state, []))) =
     [request_with opts0 ''k0'', request_with opts0 ''k1'']"
proof -
  let ?sent = "[request_with opts0 ''k0'', request_with opts0 ''k1'']"
  have a: "rate_limited_from api_429 (length [])"
    by (simp add: rate_limited_from_def api_429_def)
  have b: "rate_limited_from api_second_ok (length ?sent)"
    by (simp add: rate_limited_from_def api_second_ok_def)
  have k: "getApiKeys env2 = [''k0'', ''k1'']"
    by (simp add: getApiKeys_def env2_def push_key_def)
  then have ne: "getApiKeys env2 \<noteq> []" by simp
  from sendToGroq_all_rate_limited [OF b ne, of "\<lparr>currentApiKeyIndex = 1, allKeysExhausted = False\<rparr>" opts0]
    sendToGroq_all_rate_limited [OF a ne, of initial_key_state opts0]
  show ?thesis by (simp add: k initial_key_state_def)
qed

text \<open>
  Claim C1 as stated fails. Two credentials are configured. The first call is rate
  limited on \<open>k0\<close> and served on \<open>k1\<close>, which leaves the index at 1. In the next call every
  request is answered with 429: the call sends one request, with \<open>k1\<close>, and reports that
  all keys are exhausted. It has tried one credential, not two.
\<close>

theorem sendToGroq_skips_earlier_credentials:
  "length (getApiKeys env2) = 2 \<and>
   sendToGroq env2 api_second_ok opts0 (initial_key_state, []) =
     (Success ''text'', \<lparr>currentApiKeyIndex = 1, allKeysExhausted = False\<rparr>,
      [request_with opts0 ''k0'', request_with opts0 ''k1'']) \<and>
   api_second_ok 2 (request_with opts0 ''k1'') = Reply 429 (Body None) \<and>
   sendToGroq env2 api_second_ok opts0
       (\<lparr>currentApiKeyIndex = 1, allKeysExhausted = False\<rparr>,
        [request_with opts0 ''k0'', request_with opts0 ''k1'']) =
     (Failure exhausted_msg, \<lparr>currentApiKeyIndex = 0, allKeysExhausted = True\<rparr>,
      [request_with opts0 ''k0'', request_with opts0 ''k1'', request_with opts0 ''k1''])"
  by (simp add: sendToGroq_def attemptRequest.simps getCurrentApiKey_def switchToNextKey_def
      getApiKeys_def env2_def push_key_def api_second_ok_def opts0_def initial_key_state_def
      request_with_def ok_def exhausted_msg_def Let_def)

section \<open>The LLM client: failures other than rate limiting\<close>

lemma getCurrentApiKey_Some:
  assumes "getCurrentApiKey env st = (Some k, st1)"
  shows "currentApiKeyIndex st1 < length (getApiKeys env)"
    and "k = getApiKeys env ! currentApiKeyIndex st1"
    and "k \<noteq> []"
proof -
  from assms show i: "currentApiKeyIndex st1 < length (getApiKeys env)"
    by (auto simp: getCurrentApiKey_def Let_def split: if_splits)
  from assms show k: "k = getApiKeys env ! currentApiKeyIndex st1"
    by (auto simp: getCurrentApiKey_def Let_def split: if_splits)
  from i k show "k \<noteq> []" by (simp add: getApiKeys_nth_nonempty)
qed

lemma attemptRequest_upstream_error:
  assumes cur: "getCurrentApiKey env st = (Some k, st1)"
    and reply: "api (length sent) (mk_request ms t mt k) = Reply status body"
    and bad: "\<not> ok status" "status \<noteq> 429"
  shows "\<exists>msg. attemptRequest env api ms t mt (st, sent) =
            (Failure msg, st1, sent @ [mk_request ms t mt k]) \<and>
          (\<forall>c. body = Body c \<longrightarrow> msg = ''Groq API error: '' @ string_of_nat status)"
proof -
  have key: "k \<noteq> []" using cur by (rule getCurrentApiKey_Some)
  show ?thesis
    using cur reply bad key
    by (subst attemptRequest.simps) (cases body; simp add: Let_def)
qed

text \<open>
  The index stays a position of the list of credentials: this holds at the start of the
  process and after every call, as long as credentials are configured.
\<close>

lemma attemptRequest_index_valid:
  assumes ne: "getApiKeys env \<noteq> []"
  shows "currentApiKeyIndex (fst (snd (attemptRequest env api ms t mt (st, sent))))
           < length (getApiKeys env)"
proof (induction "length (getApiKeys env) - currentApiKeyIndex st" arbitrary: st sent
    rule: less_induct)
  case less
  let ?N = "length (getApiKeys env)"
  from ne obtain k st1 where cur: "getCurrentApiKey env st = (Some k, st1)"
    by (auto simp: getCurrentApiKey_def Let_def)
  have v: "currentApiKeyIndex st1 < ?N" and key: "k \<noteq> []"
    using cur by (rule getCurrentApiKey_Some)+
  let ?req = "mk_request ms t mt k"
  show ?case
  proof (cases "api (length sent) ?req")
    case (FetchThrew msg)
    with cur key v show ?thesis by (subst attemptRequest.simps) (simp add: Let_def)
  next
    case (Reply status body)
    show ?thesis
    proof (cases "status = 429 \<and> \<not> allKeysExhausted st1")
      case True
      then have same: "st1 = st"
        using cur by (auto simp: getCurrentApiKey_def Let_def split: if_splits)
      show ?thesis
      proof (cases "Suc (currentApiKeyIndex st) < ?N")
        case next_key: True
        let ?st2 = "st\<lparr>currentApiKeyIndex := Suc (currentApiKeyIndex st)\<rparr>"
        have sw: "switchToNextKey env st = (True, ?st2)"
          using next_key by (simp add: switchToNextKey_def Let_def)
        have step: "attemptRequest env api ms t mt (st, sent) =
                    attemptRequest env api ms t mt (?st2, sent @ [?req])"
          using cur key Reply True sw same by (subst attemptRequest.simps) (simp add: Let_def)
        have "?N - currentApiKeyIndex ?st2 < ?N - currentApiKeyIndex st"
          using next_key by simp
        from less [OF this] step show ?thesis by simp
      next
        case False
        then have sw: "switchToNextKey env st =
            (False, st\<lparr>currentApiKeyIndex := 0, allKeysExhausted := True\<rparr>)"
          by (simp add: switchToNextKey_def Let_def)
        with cur key Reply True same ne show ?thesis
          by (subst attemptRequest.simps) (simp add: Let_def)
      qed
    next
      case False
      then have nr: "(status = 429 \<and> \<not> allKeysExhausted st1) = False" by simp
      show ?thesis
      proof (cases body)
        case (BodyThrew msg)
        with cur key Reply v show ?thesis
          by (subst attemptRequest.simps) (simp add: Let_def nr)
      next
        case (Body c)
        with cur key Reply v show ?thesis
          by (subst attemptRequest.simps) (simp add: Let_def nr)
      qed
    qed
  qed
qed

lemma sendToGroq_index_valid:
  "getApiKeys env \<noteq> [] \<Longrightarrow>
   currentApiKeyIndex (fst (snd (sendToGroq env api options (st, sent)))) < length (getApiKeys env)"
  by (simp add: sendToGroq_def attemptRequest_index_valid)

text \<open>
  Claim C8. When the reply to the request is a status that is neither a success nor 429,
  \<open>sendToGroq\<close> fails, with the message \<open>Groq API error: <status>\<close> as soon as the body
  of the reply can be read, and \<open>currentApiKeyIndex\<close> is what it was when the call began.
  The same holds for a request inside the retry loop: the state it leaves is the state
  in which the request was sent, so the index still designates the credential that was
  used. No credential is rotated on such a failure.
\<close>

theorem sendToGroq_upstream_error_no_rotation:
  assumes "\<not> ok status" and "status \<noteq> 429"
  shows "(currentApiKeyIndex st < length (getApiKeys env) \<and>
          api (length sent) (request_with options (getApiKeys env ! currentApiKeyIndex st)) =
            Reply status body \<longrightarrow>
            (\<exists>msg st'. sendToGroq env api options (st, sent) =
                 (Failure msg, st',
                  sent @ [request_with options (getApiKeys env ! currentApiKeyIndex st)]) \<and>
               currentApiKeyIndex st' = currentApiKeyIndex st \<and>
               (\<forall>c. body = Body c \<longrightarrow> msg = ''Groq API error: '' @ string_of_nat status))) \<and>
         (getCurrentApiKey env st = (Some k, st1) \<and>
          api (length sent) (mk_request ms t mt k) = Reply status body \<longrightarrow>
            (\<exists>msg. attemptRequest env api ms t mt (st, sent) =
                 (Failure msg, st1, sent @ [mk_request ms t mt k]) \<and>
               (\<forall>c. body = Body c \<longrightarrow> msg = ''Groq API error: '' @ string_of_nat status)))"
proof (intro conjI impI)
  assume a: "currentApiKeyIndex st < length (getApiKeys env) \<and>
          api (length sent) (request_with options (getApiKeys env ! currentApiKeyIndex st)) =
            Reply status body"
  let ?st0 = "st\<lparr>allKeysExhausted := False\<rparr>"
  let ?k = "getApiKeys env ! currentApiKeyIndex st"
  have cur: "getCurrentApiKey env ?st0 = (Some ?k, ?st0)"
    using a getCurrentApiKey_valid [of ?st0 env] by simp
  have reply: "api (length sent) (mk_request (messages options) (effective_temperature options)
                 (effective_max_tokens options) ?k) = Reply status body"
    using a by (simp add: request_with_def)
  from attemptRequest_upstream_error [where api = api, OF cur reply assms]
  obtain msg where
    eq: "attemptRequest env api (messages options) (effective_temperature options)
           (effective_max_tokens options) (?st0, sent) =
         (Failure msg, ?st0, sent @ [mk_request (messages options) (effective_temperature options)
            (effective_max_tokens options) ?k])"
    and m: "\<forall>c. body = Body c \<longrightarrow> msg = ''Groq API error: '' @ string_of_nat status"
    by (elim exE conjE)
  have "sendToGroq env api options (st, sent) = (Failure msg, ?st0, sent @ [request_with options ?k])"
    using eq by (simp add: sendToGroq_def request_with_def)
  moreover have "currentApiKeyIndex ?st0 = currentApiKeyIndex st" by simp
  ultimately show "\<exists>msg st'. sendToGroq env api options (st, sent) =
                 (Failure msg, st', sent @ [request_with options ?k]) \<and>
               currentApiKeyIndex st' = currentApiKeyIndex st \<and>
               (\<forall>c. body = Body c \<longrightarrow> msg = ''Groq API error: '' @ string_of_nat status)"
    using m by (intro exI [of _ msg] exI [of _ ?st0] conjI)
next
  assume h: "getCurrentApiKey env st = (Some k, st1) \<and>
          api (length sent) (mk_request ms t mt k) = Reply status body"
  from h have cur: "getCurrentApiKey env st = (Some k, st1)" ..
  from h have reply: "api (length sent) (mk_request ms t mt k) = Reply status body" ..
  from attemptRequest_upstream_error [where api = api, OF cur reply assms]
  show "\<exists>msg. attemptRequest env api ms t mt (st, sent) =
                 (Failure msg, st1, sent @ [mk_request ms t mt k]) \<and>
               (\<forall>c. body = Body c \<longrightarrow> msg = ''Groq API error: '' @ string_of_nat status)" .
qed

theorem sendToGroq_upstream_error_no_rotation_witness:
  "fst (sendToGroq env2 api_503 opts0 (\<lparr>currentApiKeyIndex = 1, allKeysExhausted = False\<rparr>, [])) =
     Failure ''Groq API error: 503'' \<and>
   currentApiKeyIndex
     (fst (snd (sendToGroq env2 api_503 opts0
                  (\<lparr>currentApiKeyIndex = 1, allKeysExhausted = False\<rparr>, [])))) = 1 \<and>
   snd (snd (sendToGroq env2 api_503 opts0 (\<lparr>currentApiKeyIndex = 1, allKeysExhausted = False\<rparr>, []))) =
     [request_with opts0 ''k1'']"
proof -
  have k: "getApiKeys env2 = [''k0'', ''k1'']"
    by (simp add: getApiKeys_def env2_def push_key_def)
  have s: "string_of_nat 503 = ''503''" by code_simp
  have b: "\<not> ok 503" "(503::nat) \<noteq> 429" by (simp_all add: ok_def)
  let ?st = "\<lparr>currentApiKeyIndex = 1, allKeysExhausted = False\<rparr>"
  have h: "currentApiKeyIndex ?st < length (getApiKeys env2) \<and>
        api_503 (length []) (request_with opts0 (getApiKeys env2 ! currentApiKeyIndex ?st)) =
          Reply 503 (Body None)"
    by (simp add: k api_503_def)
  from sendToGroq_upstream_error_no_rotation [OF b, where st = ?st and env = env2
      and api = api_503 and sent = "[]" and options = opts0 and body = "Body None",
      THEN conjunct1, THEN mp, OF h]
  obtain msg st' where r: "sendToGroq env2 api_503 opts0 (?st, []) =
      (Failure msg, st', [] @ [request_with opts0 (getApiKeys env2 ! currentApiKeyIndex ?st)])"
    and i: "currentApiKeyIndex st' = currentApiKeyIndex ?st"
    and m: "\<forall>c. Body None = Body c \<longrightarrow> msg = ''Groq API error: '' @ string_of_nat 503"
    by (elim exE conjE)
  from m have "msg = ''Groq API error: '' @ string_of_nat 503" by simp
  then have m': "msg = ''Groq API error: 503''" unfolding s by simp
  from r i m' show ?thesis by (simp add: k)
qed

section \<open>The file tree: order of the sort\<close>

lemma precedes_trans: "precedes a b \<Longrightarrow> precedes b c \<Longrightarrow> precedes a c"
  by (auto simp: precedes_def)

lemma compare_neg: "compare_items lc x y < 0 \<Longrightarrow> precedes x y"
  by (auto simp: compare_items_def precedes_def Let_def split: if_splits)

lemma compare_nonneg: "\<not> compare_items lc x y < 0 \<Longrightarrow> precedes y x"
  by (auto simp: compare_items_def precedes_def Let_def split: if_splits)

lemma set_insert_by: "set (insert_by cmp x ys) = insert x (set ys)"
  by (induction ys) auto

lemma length_insert_by: "length (insert_by cmp x ys) = Suc (length ys)"
  by (induction ys) auto

lemma set_sort_fold: "set (foldl (\<lambda>acc x. insert_by cmp x acc) acc xs) = set acc \<union> set xs"
  by (induction xs arbitrary: acc) (auto simp: set_insert_by)

lemma set_sortedItems: "set (sortedItems lc items) = set items"
  by (simp add: sortedItems_def sort_by_def set_sort_fold)

lemma length_sort_fold: "length (foldl (\<lambda>acc x. insert_by cmp x acc) acc xs) = length acc + length xs"
  by (induction xs arbitrary: acc) (auto simp: length_insert_by)

lemma length_sortedItems: "length (sortedItems lc items) = length items"
  by (simp add: sortedItems_def sort_by_def length_sort_fold)

lemma sorted_insert_by:
  "sorted_wrt precedes ys \<Longrightarrow> sorted_wrt precedes (insert_by (compare_items lc) x ys)"
proof (induction ys)
  case Nil
  then show ?case by simp
next
  case (Cons y ys)
  show ?case
  proof (cases "compare_items lc x y < 0")
    case True
    then have xy: "precedes x y" by (rule compare_neg)
    have "\<forall>z\<in>set ys. precedes x z" using Cons.prems xy by (auto intro: precedes_trans)
    with xy Cons.prems True show ?thesis by simp
  next
    case False
    then have yx: "precedes y x" by (rule compare_nonneg)
    from Cons have "sorted_wrt precedes (insert_by (compare_items lc) x ys)" by simp
    with yx Cons.prems False show ?thesis by (auto simp: set_insert_by)
  qed
qed

lemma sorted_sort_fold:
  "sorted_wrt precedes acc \<Longrightarrow>
   sorted_wrt precedes (foldl (\<lambda>acc x. insert_by (compare_items lc) x acc) acc xs)"
  by (induction xs arbitrary: acc) (auto intro: sorted_insert_by)

lemma sorted_sortedItems: "sorted_wrt precedes (sortedItems lc items)"
  by (simp add: sortedItems_def sort_by_def sorted_sort_fold)

lemma split_acc_nosep: "sep \<notin> set x \<Longrightarrow> split_acc sep cur x = [rev cur @ x]"
  by (induction x arbitrary: cur) auto

lemma split_acc_seg:
  "sep \<notin> set x \<Longrightarrow> split_acc sep cur (x @ sep # rest) = (rev cur @ x) # split_acc sep [] rest"
  by (induction x arbitrary: cur) auto

lemma split_acc_ne: "split_acc sep cur s \<noteq> []"
  by (induction s arbitrary: cur) auto

lemma split_acc_parts: "sep \<notin> set cur \<Longrightarrow> \<forall>x\<in>set (split_acc sep cur s). sep \<notin> set x"
proof (induction s arbitrary: cur)
  case Nil
  then show ?case by simp
next
  case (Cons c s)
  have a: "\<forall>x\<in>set (split_acc sep [] s). sep \<notin> set x" by (rule Cons.IH) simp
  show ?case
  proof (cases "c = sep")
    case True
    with a Cons.prems show ?thesis by simp
  next
    case False
    then have "sep \<notin> set (c # cur)" using Cons.prems by simp
    from Cons.IH [OF this] False show ?thesis by simp
  qed
qed

lemma split_ne: "split sep s \<noteq> []"
  by (simp add: split_def split_acc_ne)

lemma split_parts: "x \<in> set (split sep s) \<Longrightarrow> sep \<notin> set x"
  using split_acc_parts [of sep "[]" s] by (simp add: split_def)

lemma split_join:
  "xs \<noteq> [] \<Longrightarrow> \<forall>x\<in>set xs. sep \<notin> set x \<Longrightarrow> split sep (join [sep] xs) = xs"
proof (induction "[sep]" xs rule: join.induct)
  case 1
  then show ?case by simp
next
  case (2 x)
  then show ?case by (simp add: split_def split_acc_nosep)
next
  case (3 x y ys)
  then show ?case by (simp add: split_def split_acc_seg)
qed

lemma depth_parentPath:
  assumes "parentPath p \<noteq> []"
  shows "depth (parentPath p) < depth p"
proof -
  let ?parts = "split CHR ''/'' p"
  have ne: "butlast ?parts \<noteq> []" using assms by (auto simp: parentPath_def)
  have "\<forall>x\<in>set (butlast ?parts). CHR ''/'' \<notin> set x"
    by (meson in_set_butlastD split_parts)
  with ne have "split CHR ''/'' (join ''/'' (butlast ?parts)) = butlast ?parts"
    by (rule split_join)
  then have "depth (parentPath p) = length ?parts - 1"
    by (simp add: depth_def parentPath_def)
  moreover have "length ?parts > 0" using split_ne by simp
  ultimately show ?thesis by (simp add: depth_def)
qed

lemma parent_first:
  assumes "i < length (sortedItems lc items)" "j < length (sortedItems lc items)"
    and "parentPath (item_path (sortedItems lc items ! j)) \<noteq> []"
    and "item_path (sortedItems lc items ! i) = parentPath (item_path (sortedItems lc items ! j))"
  shows "i < j"
proof (rule ccontr)
  assume "\<not> i < j"
  let ?s = "sortedItems lc items"
  have d: "depth (item_path (?s ! i)) < depth (item_path (?s ! j))"
    using assms(3,4) depth_parentPath by simp
  then have "i \<noteq> j" by auto
  with \<open>\<not> i < j\<close> have "j < i" by simp
  then have "precedes (?s ! j) (?s ! i)"
    using sorted_sortedItems [of lc items] assms(1) by (simp add: sorted_wrt_iff_nth_less)
  with d show False by (simp add: precedes_def)
qed



section \<open>The file tree: the invariant of the loop\<close>

lemma parentPath_neq: "parentPath q \<noteq> [] \<Longrightarrow> parentPath q \<noteq> q"
  using depth_parentPath [of q] by auto

lemma add_item_cases:
  "add_item s item =
     (let s1 = registered s item; n = length (store s) in
      if parentPath (item_path item) = [] then s1\<lparr>root := root s @ [n]\<rparr>
      else case nodeMap s1 (parentPath (item_path item)) of
             None \<Rightarrow> s1
           | Some p \<Rightarrow> (case node_children (store s1 ! p) of
                None \<Rightarrow> s1
              | Some cs \<Rightarrow> s1\<lparr>store := (store s1)[p := (store s1 ! p)\<lparr>node_children := Some (cs @ [n])\<rparr>]\<rparr>))"
  by (simp add: add_item_def registered_def new_node_def parentPath_def Let_def)

lemma tree_path_mono: "tree_path I p \<Longrightarrow> tree_path (insert t I) p"
  by (auto simp: tree_path_def)

lemma registered_simps:
  "store (registered s item) = store s @ [new_node item]"
  "root (registered s item) = root s"
  "nodeMap (registered s item) = (nodeMap s)(item_path item \<mapsto> length (store s))"
  by (simp_all add: registered_def)

lemma children_okD:
  assumes "children_ok I s" "p < length (store s)" "node_children (store s ! p) = Some cs"
  shows "tree_path I (node_path (store s ! p))"
    and "\<And>a. a \<in> set cs \<Longrightarrow> p < a \<and> a < length (store s) \<and>
           parentPath (node_path (store s ! a)) \<noteq> [] \<and>
           parentPath (node_path (store s ! a)) = node_path (store s ! p)"
  using assms unfolding children_ok_def by blast+

lemma registered_inv:
  assumes "build_inv I s"
  shows "build_inv (insert item I) (registered s item)"
proof -
  let ?n = "length (store s)"
  let ?s1 = "registered s item"
  from assms have r0: "roots_ok s" and c0: "children_ok I s" and m0: "map_ok s"
    by (simp_all add: build_inv_def)
  have old: "store ?s1 ! a = store s ! a" if "a < ?n" for a
    using that by (simp add: registered_simps nth_append)
  have new: "store ?s1 ! ?n = new_node item"
    by (simp add: registered_simps)
  have len: "length (store ?s1) = Suc ?n"
    by (simp add: registered_simps)
  have r: "roots_ok ?s1"
    unfolding roots_ok_def
  proof
    fix a assume "a \<in> set (root ?s1)"
    then have "a \<in> set (root s)" by (simp add: registered_simps)
    with r0 have "a < ?n" "parentPath (node_path (store s ! a)) = []"
      by (simp_all add: roots_ok_def)
    then show "a < length (store ?s1) \<and> parentPath (node_path (store ?s1 ! a)) = []"
      by (simp add: old len)
  qed
  have m: "map_ok ?s1"
    unfolding map_ok_def
  proof (intro allI impI)
    fix k a assume ka: "nodeMap ?s1 k = Some a"
    show "a < length (store ?s1) \<and> node_path (store ?s1 ! a) = k"
    proof (cases "k = item_path item")
      case True
      with ka have "a = ?n" by (simp add: registered_simps)
      with True show ?thesis by (simp add: new len new_node_def)
    next
      case False
      with ka have "nodeMap s k = Some a" by (simp add: registered_simps)
      with m0 have "a < ?n" "node_path (store s ! a) = k" by (simp_all add: map_ok_def)
      then show ?thesis by (simp add: old len)
    qed
  qed
  have c: "children_ok (insert item I) ?s1"
    unfolding children_ok_def
  proof (intro allI impI)
    fix p cs
    assume p: "p < length (store ?s1)"
      and cs: "node_children (store ?s1 ! p) = Some cs"
    show "tree_path (insert item I) (node_path (store ?s1 ! p)) \<and>
        (\<forall>a\<in>set cs. p < a \<and> a < length (store ?s1) \<and>
           parentPath (node_path (store ?s1 ! a)) \<noteq> [] \<and>
           parentPath (node_path (store ?s1 ! a)) = node_path (store ?s1 ! p))"
    proof (cases "p < ?n")
      case True
      with cs have oc: "node_children (store s ! p) = Some cs" by (simp add: old)
      have tp: "tree_path (insert item I) (node_path (store ?s1 ! p))"
        using children_okD(1) [OF c0 True oc] True by (simp add: old tree_path_mono)
      have "p < a \<and> a < length (store ?s1) \<and>
           parentPath (node_path (store ?s1 ! a)) \<noteq> [] \<and>
           parentPath (node_path (store ?s1 ! a)) = node_path (store ?s1 ! p)" if "a \<in> set cs" for a
      proof -
        from children_okD(2) [OF c0 True oc that]
        have a: "p < a" "a < ?n" "parentPath (node_path (store s ! a)) \<noteq> []"
           "parentPath (node_path (store s ! a)) = node_path (store s ! p)" by auto
        then show ?thesis using True by (simp add: old len)
      qed
      with tp show ?thesis by blast
    next
      case False
      with p have pn: "p = ?n" by (simp add: len)
      with cs have "node_children (new_node item) = Some cs" by (simp add: new)
      then have "item_type item = Tree" "cs = []"
        by (simp_all add: new_node_def split: if_splits)
      with pn show ?thesis by (simp add: new new_node_def tree_path_def)
    qed
  qed
  from r m c show ?thesis by (simp add: build_inv_def)
qed

lemma attach_inv:
  assumes inv: "build_inv I s1"
    and p: "nodeMap s1 q = Some p" and cs: "node_children (store s1 ! p) = Some cs"
    and n: "n < length (store s1)" "p < n" "node_path (store s1 ! n) = x" "parentPath x = q" "q \<noteq> []"
  shows "build_inv I (s1\<lparr>store := (store s1)[p := (store s1 ! p)\<lparr>node_children := Some (cs @ [n])\<rparr>]\<rparr>)"
proof -
  let ?st = "(store s1)[p := (store s1 ! p)\<lparr>node_children := Some (cs @ [n])\<rparr>]"
  let ?s2 = "s1\<lparr>store := ?st\<rparr>"
  from inv have r0: "roots_ok s1" and c0: "children_ok I s1" and m0: "map_ok s1"
    by (simp_all add: build_inv_def)
  have pq: "node_path (store s1 ! p) = q" and pl: "p < length (store s1)"
    using m0 p by (simp_all add: map_ok_def)
  have path: "node_path (store ?s2 ! a) = node_path (store s1 ! a)" for a
    using pl by (cases "a = p") simp_all
  have len: "length (store ?s2) = length (store s1)" by simp
  have r: "roots_ok ?s2"
    using r0 unfolding roots_ok_def path len by simp
  have m: "map_ok ?s2"
    using m0 unfolding map_ok_def path len by simp
  have c: "children_ok I ?s2"
    unfolding children_ok_def path len
  proof (intro allI impI)
    fix p' cs'
    assume p'l: "p' < length (store s1)"
      and cs': "node_children (store ?s2 ! p') = Some cs'"
    show "tree_path I (node_path (store s1 ! p')) \<and>
        (\<forall>a\<in>set cs'. p' < a \<and> a < length (store s1) \<and>
           parentPath (node_path (store s1 ! a)) \<noteq> [] \<and>
           parentPath (node_path (store s1 ! a)) = node_path (store s1 ! p'))"
    proof (cases "p' = p")
      case True
      with cs' pl have cs'_eq: "cs' = cs @ [n]" by simp
      have "p < a \<and> a < length (store s1) \<and>
           parentPath (node_path (store s1 ! a)) \<noteq> [] \<and>
           parentPath (node_path (store s1 ! a)) = node_path (store s1 ! p)" if "a \<in> set cs'" for a
      proof (cases "a = n")
        case True
        with n pq show ?thesis by auto
      next
        case False
        with that cs'_eq have "a \<in> set cs" by simp
        from children_okD(2) [OF c0 pl cs this] show ?thesis .
      qed
      with children_okD(1) [OF c0 pl cs] True show ?thesis by blast
    next
      case False
      with cs' have oc: "node_children (store s1 ! p') = Some cs'" by simp
      from children_okD(1) [OF c0 p'l oc] children_okD(2) [OF c0 p'l oc]
      show ?thesis by blast
    qed
  qed
  from r m c show ?thesis by (simp add: build_inv_def)
qed

lemma children_ok_root: "children_ok I (s\<lparr>root := r\<rparr>) = children_ok I s"
  by (simp add: children_ok_def)

lemma map_ok_root: "map_ok (s\<lparr>root := r\<rparr>) = map_ok s"
  by (simp add: map_ok_def)

lemma add_item_inv:
  assumes "build_inv I s"
  shows "build_inv (insert item I) (add_item s item)"
proof -
  let ?s1 = "registered s item"
  let ?n = "length (store s)"
  let ?q = "parentPath (item_path item)"
  have inv1: "build_inv (insert item I) ?s1" using assms by (rule registered_inv)
  show ?thesis
  proof (cases "?q = []")
    case True
    have c: "children_ok (insert item I) (?s1\<lparr>root := root s @ [?n]\<rparr>)"
      using inv1 by (simp add: build_inv_def children_ok_root)
    have m: "map_ok (?s1\<lparr>root := root s @ [?n]\<rparr>)"
      using inv1 by (simp add: build_inv_def map_ok_root)
    have r1: "roots_ok ?s1" using inv1 by (simp add: build_inv_def)
    have r: "roots_ok (?s1\<lparr>root := root s @ [?n]\<rparr>)"
      unfolding roots_ok_def
    proof
      fix a assume "a \<in> set (root (?s1\<lparr>root := root s @ [?n]\<rparr>))"
      then have "a \<in> set (root ?s1) \<or> a = ?n" by (auto simp: registered_simps)
      then show "a < length (store (?s1\<lparr>root := root s @ [?n]\<rparr>)) \<and>
          parentPath (node_path (store (?s1\<lparr>root := root s @ [?n]\<rparr>) ! a)) = []"
      proof
        assume "a \<in> set (root ?s1)"
        with r1 have "a < length (store ?s1) \<and> parentPath (node_path (store ?s1 ! a)) = []"
          unfolding roots_ok_def by blast
        then show ?thesis by simp
      next
        assume "a = ?n"
        with True show ?thesis by (simp add: registered_simps new_node_def)
      qed
    qed
    from r c m have "build_inv (insert item I) (?s1\<lparr>root := root s @ [?n]\<rparr>)"
      by (simp add: build_inv_def)
    with True show ?thesis by (simp add: add_item_cases Let_def)
  next
    case False
    show ?thesis
    proof (cases "nodeMap ?s1 ?q")
      case None
      with False inv1 show ?thesis by (simp add: add_item_cases Let_def)
    next
      case (Some p)
      show ?thesis
      proof (cases "node_children (store ?s1 ! p)")
        case None
        with Some False inv1 show ?thesis by (simp add: add_item_cases Let_def)
      next
        case (Some cs)
        have qne: "?q \<noteq> item_path item" using False by (rule parentPath_neq)
        with \<open>nodeMap ?s1 ?q = Some p\<close> have "nodeMap s ?q = Some p" by (simp add: registered_simps)
        moreover from assms have "map_ok s" by (simp add: build_inv_def)
        ultimately have "p < ?n" unfolding map_ok_def by blast
        have "build_inv (insert item I)
           (?s1\<lparr>store := (store ?s1)[p := (store ?s1 ! p)\<lparr>node_children := Some (cs @ [?n])\<rparr>]\<rparr>)"
          using inv1 \<open>nodeMap ?s1 ?q = Some p\<close> Some
        proof (rule attach_inv)
          show "?n < length (store ?s1)" by (simp add: registered_simps)
          show "p < ?n" by fact
          show "node_path (store ?s1 ! ?n) = item_path item" by (simp add: registered_simps new_node_def)
          show "?q = ?q" by simp
          show "?q \<noteq> []" by fact
        qed
        with Some \<open>nodeMap ?s1 ?q = Some p\<close> False show ?thesis by (simp add: add_item_cases Let_def)
      qed
    qed
  qed
qed

lemma foldl_add_item_inv:
  "build_inv I s \<Longrightarrow> build_inv (I \<union> set xs) (foldl add_item s xs)"
proof (induction xs arbitrary: I s)
  case Nil
  then show ?case by simp
next
  case (Cons x xs)
  from Cons.prems have "build_inv (insert x I) (add_item s x)" by (rule add_item_inv)
  from Cons.IH [OF this] show ?case by simp
qed

lemma build_inv_build: "build_inv (set items) (build lc items)"
proof -
  have "build_inv {} empty_build"
    by (simp add: build_inv_def roots_ok_def children_ok_def map_ok_def empty_build_def)
  from foldl_add_item_inv [OF this, of "sortedItems lc items"]
  show ?thesis by (simp add: build_def set_sortedItems)
qed



lemma build_children_later:
  assumes "build_inv I s" "a < length (store s)" "node_children (store s ! a) = Some cs"
  shows "filter (\<lambda>c. a < c \<and> c < length (store s)) cs = cs"
proof -
  from assms(1) have c0: "children_ok I s" by (simp add: build_inv_def)
  have "\<forall>c\<in>set cs. a < c \<and> c < length (store s)"
    using children_okD(2) [OF c0 assms(2,3)] by blast
  then show ?thesis by simp
qed

lemma read_node_paths:
  assumes inv: "build_inv I s"
  shows "a < length (store s) \<Longrightarrow>
    \<forall>q\<in>set (paths_of (read_node (store s) a)). q = node_path (store s ! a) \<or> attached_path I q"
proof (induction "length (store s) - a" arbitrary: a rule: less_induct)
  case less
  from inv have c0: "children_ok I s" by (simp add: build_inv_def)
  show ?case
  proof (cases "node_children (store s ! a)")
    case None
    then show ?thesis by (subst read_node.simps) simp
  next
    case (Some cs)
    have flt: "filter (\<lambda>c. a < c \<and> c < length (store s)) cs = cs"
      using inv less.prems Some by (rule build_children_later)
    have kids: "\<forall>q\<in>set (paths_of (read_node (store s) c)). attached_path I q" if "c \<in> set cs" for c
    proof -
      from children_okD(2) [OF c0 less.prems Some that]
      have c: "a < c" "c < length (store s)" "parentPath (node_path (store s ! c)) \<noteq> []"
        "parentPath (node_path (store s ! c)) = node_path (store s ! a)" by auto
      have tp: "tree_path I (node_path (store s ! a))"
        using children_okD(1) [OF c0 less.prems Some] .
      have self: "attached_path I (node_path (store s ! c))"
        using c(3,4) tp by (simp add: attached_path_def)
      have "length (store s) - c < length (store s) - a" using c(1,2) by simp
      from less.hyps [OF this c(2)] self show ?thesis by auto
    qed
    show ?thesis
      by (subst read_node.simps) (use Some flt kids in auto)
  qed
qed

lemma root_paths:
  assumes inv: "build_inv I s"
  shows "\<forall>q\<in>set (concat (map paths_of (map (read_node (store s)) (root s)))).
           parentPath q = [] \<or> attached_path I q"
proof -
  from inv have r0: "roots_ok s" by (simp add: build_inv_def)
  have "\<forall>q\<in>set (paths_of (read_node (store s) a)). parentPath q = [] \<or> attached_path I q"
    if "a \<in> set (root s)" for a
  proof -
    from r0 that have a: "a < length (store s)" "parentPath (node_path (store s ! a)) = []"
      by (simp_all add: roots_ok_def)
    from read_node_paths [OF inv a(1)] a(2) show ?thesis by auto
  qed
  then show ?thesis by auto
qed

lemma orphan_omitted:
  assumes "parentPath (item_path item) \<noteq> []"
    and "\<forall>t\<in>set items. item_type t = Tree \<longrightarrow> item_path t \<noteq> parentPath (item_path item)"
  shows "item_path item \<notin> set (concat (map paths_of (buildFileTree lc items)))"
proof
  assume "item_path item \<in> set (concat (map paths_of (buildFileTree lc items)))"
  then have "parentPath (item_path item) = [] \<or> attached_path (set items) (item_path item)"
    using root_paths [OF build_inv_build [of items lc]] unfolding buildFileTree_def Let_def by blast
  with assms show False by (auto simp: attached_path_def tree_path_def)
qed

lemma orphan_not_linked:
  assumes "parentPath (item_path item) \<noteq> []"
    and "\<forall>t\<in>set items. item_type t = Tree \<longrightarrow> item_path t \<noteq> parentPath (item_path item)"
    and "a < length (store (build lc items))" "node_path (store (build lc items) ! a) = item_path item"
  shows "a \<notin> set (root (build lc items)) \<and>
         (\<forall>p<length (store (build lc items)). \<forall>cs.
             node_children (store (build lc items) ! p) = Some cs \<longrightarrow> a \<notin> set cs)"
proof -
  let ?s = "build lc items"
  have inv: "build_inv (set items) ?s" by (rule build_inv_build)
  then have r0: "roots_ok ?s" and c0: "children_ok (set items) ?s" by (simp_all add: build_inv_def)
  have "a \<notin> set (root ?s)"
  proof
    assume "a \<in> set (root ?s)"
    with r0 have "parentPath (node_path (store ?s ! a)) = []" by (simp add: roots_ok_def)
    with assms show False by simp
  qed
  moreover have "a \<notin> set cs" if "p < length (store ?s)" "node_children (store ?s ! p) = Some cs" for p cs
  proof
    assume "a \<in> set cs"
    from children_okD(2) [OF c0 that this] children_okD(1) [OF c0 that]
    have "tree_path (set items) (parentPath (node_path (store ?s ! a)))" by auto
    with assms show False by (auto simp: tree_path_def)
  qed
  ultimately show ?thesis by blast
qed

lemma three_arrangements:
  assumes "set xs = {a, b, c}" "length xs = 3" "a \<noteq> b" "a \<noteq> c" "b \<noteq> c"
  shows "xs \<in> {[a, b, c], [a, c, b], [b, a, c], [b, c, a], [c, a, b], [c, b, a]}"
proof -
  from assms(2) obtain x y z where xs: "xs = [x, y, z]"
    by (auto simp: length_Suc_conv numeral_3_eq_3)
  have "card (set xs) = 3" using assms by simp
  with xs have d: "x \<noteq> y" "x \<noteq> z" "y \<noteq> z"
    by (auto simp: card_insert_if split: if_splits)
  from assms(1) xs have "x \<in> {a, b, c}" "y \<in> {a, b, c}" "z \<in> {a, b, c}" by auto
  with d xs show ?thesis by auto
qed

lemma split_examples:
  "split CHR ''/'' ''a/b.txt'' = [''a'', ''b.txt'']"
  "split CHR ''/'' ''a'' = [''a'']"
  "split CHR ''/'' ''c.txt'' = [''c.txt'']"
  by (simp_all add: split_def)

lemma example_sorted:
  assumes "xs \<in> {[a, b, c], [a, c, b], [b, a, c], [b, c, a], [c, a, b], [c, b, a]}"
    and "a = blob ''a/b.txt'' s1" "b = folder ''a'' s2" "c = blob ''c.txt'' s3"
  shows "sortedItems lc xs = [b, c, a]"
  using assms
  by (auto simp: sortedItems_def sort_by_def compare_items_def depth_def split_examples
      blob_def folder_def)

lemma example_built:
  assumes "sortedItems lc xs = [folder ''a'' s2, blob ''c.txt'' s3, blob ''a/b.txt'' s1]"
  shows "buildFileTree lc xs = example_tree s1 s2 s3"
  unfolding buildFileTree_def build_def assms
  by (simp add: add_item_def empty_build_def split_examples blob_def folder_def Let_def
      read_node.simps example_tree_def)

lemma store_paths_add_item:
  "map node_path (store (add_item s item)) = map node_path (store s) @ [item_path item]"
proof -
  have upd: "map node_path (xs[p := (xs ! p)\<lparr>node_children := c\<rparr>]) = map node_path xs" for xs p c
  proof (cases "p < length xs")
    case True
    then show ?thesis by (simp add: map_update list_update_same_conv)
  next
    case False
    then have "length xs \<le> p" by simp
    then show ?thesis by (simp only: list_update_beyond)
  qed
  show ?thesis
    by (simp add: add_item_cases registered_simps new_node_def Let_def upd
        del: list_update_append split: option.splits)
qed

lemma store_paths_foldl:
  "map node_path (store (foldl add_item s xs)) = map node_path (store s) @ map item_path xs"
  by (induction xs arbitrary: s) (simp_all add: store_paths_add_item)

lemma store_paths_build:
  "set (map node_path (store (build lc items))) = item_path ` set items"
  by (simp add: build_def store_paths_foldl empty_build_def set_sortedItems)

text \<open>
  Claim C3. Whatever the order in which the three entries \<open>a/b.txt\<close> (blob), \<open>a\<close> (tree)
  and \<open>c.txt\<close> (blob) arrive, and whatever \<open>localeCompare\<close> does, \<open>buildFileTree\<close> returns
  the folder \<open>a\<close> and the file \<open>c.txt\<close> at the root, and \<open>b.txt\<close> as the only child of
  \<open>a\<close>. For every list of entries, the sorted list is a rearrangement of the input in
  which the depth never decreases and, at equal depth, no file comes before a folder; and
  an entry whose path is the non-empty parent path of another entry comes before that
  entry, so a parent folder is in \<open>nodeMap\<close> when its children look it up.
\<close>

theorem buildFileTree_folders_first:
  "(\<forall>xs. set xs = set (example_items s1 s2 s3) \<and> length xs = 3 \<longrightarrow>
          buildFileTree lc xs = example_tree s1 s2 s3) \<and>
   (\<forall>i j. i < j \<and> j < length (sortedItems lc items) \<longrightarrow>
      depth (item_path (sortedItems lc items ! i)) \<le> depth (item_path (sortedItems lc items ! j)) \<and>
      (depth (item_path (sortedItems lc items ! i)) = depth (item_path (sortedItems lc items ! j)) \<and>
       item_type (sortedItems lc items ! j) = Tree \<longrightarrow>
         item_type (sortedItems lc items ! i) = Tree)) \<and>
   (\<forall>i j. i < length (sortedItems lc items) \<and> j < length (sortedItems lc items) \<and>
      parentPath (item_path (sortedItems lc items ! j)) \<noteq> [] \<and>
      item_path (sortedItems lc items ! i) = parentPath (item_path (sortedItems lc items ! j)) \<longrightarrow>
        i < j) \<and>
   set (sortedItems lc items) = set items \<and> length (sortedItems lc items) = length items"
proof (intro conjI allI impI)
  fix xs
  assume h: "set xs = set (example_items s1 s2 s3) \<and> length xs = 3"
  let ?a = "blob ''a/b.txt'' s1" and ?b = "folder ''a'' s2" and ?c = "blob ''c.txt'' s3"
  have ne: "?a \<noteq> ?b" "?a \<noteq> ?c" "?b \<noteq> ?c" by (simp_all add: blob_def folder_def)
  from h have "set xs = {?a, ?b, ?c}" "length xs = 3" by (simp_all add: example_items_def)
  then have "xs \<in> {[?a, ?b, ?c], [?a, ?c, ?b], [?b, ?a, ?c], [?b, ?c, ?a], [?c, ?a, ?b], [?c, ?b, ?a]}"
    using ne by (rule three_arrangements)
  then have "sortedItems lc xs = [?b, ?c, ?a]"
    by (rule example_sorted) (rule refl)+
  then show "buildFileTree lc xs = example_tree s1 s2 s3"
    by (rule example_built)
next
  fix i j
  assume h: "i < j \<and> j < length (sortedItems lc items)"
  then have p: "precedes (sortedItems lc items ! i) (sortedItems lc items ! j)"
    using sorted_sortedItems [of lc items] by (simp add: sorted_wrt_iff_nth_less)
  from p show "depth (item_path (sortedItems lc items ! i)) \<le> depth (item_path (sortedItems lc items ! j))"
    by (auto simp: precedes_def)
  assume "depth (item_path (sortedItems lc items ! i)) = depth (item_path (sortedItems lc items ! j)) \<and>
       item_type (sortedItems lc items ! j) = Tree"
  with p show "item_type (sortedItems lc items ! i) = Tree"
    by (auto simp: precedes_def)
next
  fix i j
  assume "i < length (sortedItems lc items) \<and> j < length (sortedItems lc items) \<and>
      parentPath (item_path (sortedItems lc items ! j)) \<noteq> [] \<and>
      item_path (sortedItems lc items ! i) = parentPath (item_path (sortedItems lc items ! j))"
  then show "i < j" using parent_first [of i lc items j] by blast
next
  show "set (sortedItems lc items) = set items" by (rule set_sortedItems)
  show "length (sortedItems lc items) = length items" by (rule length_sortedItems)
qed

theorem buildFileTree_folders_first_witness:
  "buildFileTree compare_bytes [blob ''c.txt'' ''3'', blob ''a/b.txt'' ''1'', folder ''a'' ''2''] =
     [FileNode ''2'' ''a'' Folder ''a'' (Some [FileNode ''1'' ''b.txt'' File ''a/b.txt'' None]),
      FileNode ''3'' ''c.txt'' File ''c.txt'' None] \<and>
   sortedItems compare_bytes (example_items ''1'' ''2'' ''3'') =
     [folder ''a'' ''2'', blob ''c.txt'' ''3'', blob ''a/b.txt'' ''1''] \<and>
   item_type (sortedItems compare_bytes (example_items ''1'' ''2'' ''3'') ! 0) = Tree \<and>
   (0::nat) < 2"
proof -
  let ?xs = "[blob ''c.txt'' ''3'', blob ''a/b.txt'' ''1'', folder ''a'' ''2'']"
  let ?items = "example_items ''1'' ''2'' ''3''"
  note t = buildFileTree_folders_first [of "''1''" "''2''" "''3''" compare_bytes ?items]
  have s: "sortedItems compare_bytes ?items =
     [folder ''a'' ''2'', blob ''c.txt'' ''3'', blob ''a/b.txt'' ''1'']"
    by (simp add: sortedItems_def sort_by_def compare_items_def depth_def split_examples
        blob_def folder_def example_items_def)
  have "set ?xs = set ?items \<and> length ?xs = 3" by (auto simp: example_items_def)
  with t have 1: "buildFileTree compare_bytes ?xs = example_tree ''1'' ''2'' ''3''" by blast
  have "(0::nat) < 2 \<and> 2 < length (sortedItems compare_bytes ?items)" by (simp add: s)
  with t have "depth (item_path (sortedItems compare_bytes ?items ! 0)) \<le>
               depth (item_path (sortedItems compare_bytes ?items ! 2))" by blast
  with 1 s show ?thesis by (simp add: example_tree_def folder_def)
qed

text \<open>
  Claim C9. Take an entry of the flat list whose parent path is not empty and is the path
  of no tree entry of the list. \<open>buildFileTree\<close> creates a node for it, and this node is
  in no \<open>children\<close> array and not in \<open>root\<close>. The hierarchy that is returned has no node
  with the path of the entry. \<open>buildFileTree\<close> is a total function that returns the list
  of the root nodes: there is no error.
\<close>

theorem buildFileTree_drops_orphans:
  assumes "item \<in> set items"
    and "parentPath (item_path item) \<noteq> []"
    and "\<forall>t\<in>set items. item_type t = Tree \<longrightarrow> item_path t \<noteq> parentPath (item_path item)"
  shows "item_path item \<notin> set (concat (map paths_of (buildFileTree lc items))) \<and>
         (\<exists>a<length (store (build lc items)). node_path (store (build lc items) ! a) = item_path item) \<and>
         (\<forall>a<length (store (build lc items)).
            node_path (store (build lc items) ! a) = item_path item \<longrightarrow>
              a \<notin> set (root (build lc items)) \<and>
              (\<forall>p<length (store (build lc items)). \<forall>cs.
                  node_children (store (build lc items) ! p) = Some cs \<longrightarrow> a \<notin> set cs))"
proof (intro conjI allI impI)
  show "item_path item \<notin> set (concat (map paths_of (buildFileTree lc items)))"
    using assms(2,3) by (rule orphan_omitted)
next
  from assms(1) have "item_path item \<in> set (map node_path (store (build lc items)))"
    unfolding store_paths_build by simp
  then show "\<exists>a<length (store (build lc items)). node_path (store (build lc items) ! a) = item_path item"
    by (auto simp: in_set_conv_nth)
next
  fix a
  assume "a < length (store (build lc items))"
    and "node_path (store (build lc items) ! a) = item_path item"
  with assms(2,3) have r: "a \<notin> set (root (build lc items)) \<and>
         (\<forall>p<length (store (build lc items)). \<forall>cs.
             node_children (store (build lc items) ! p) = Some cs \<longrightarrow> a \<notin> set cs)"
    by (rule orphan_not_linked)
  from r show "a \<notin> set (root (build lc items))" ..
  fix p cs
  assume "p < length (store (build lc items))" "node_children (store (build lc items) ! p) = Some cs"
  with r show "a \<notin> set cs" by blast
qed

theorem buildFileTree_drops_orphans_witness:
  "''x/y.txt'' \<notin> set (concat (map paths_of (buildFileTree compare_bytes orphan_items))) \<and>
   buildFileTree compare_bytes orphan_items = [FileNode ''s2'' ''c.txt'' File ''c.txt'' None]"
proof -
  have sp: "split CHR ''/'' ''x/y.txt'' = [''x'', ''y.txt'']" "split CHR ''/'' ''c.txt'' = [''c.txt'']"
    by (simp_all add: split_def)
  have 1: "blob ''x/y.txt'' ''s1'' \<in> set orphan_items" by (simp add: orphan_items_def)
  have 2: "parentPath (item_path (blob ''x/y.txt'' ''s1'')) \<noteq> []"
    by (simp add: parentPath_def blob_def sp)
  have 3: "\<forall>t\<in>set orphan_items. item_type t = Tree \<longrightarrow>
             item_path t \<noteq> parentPath (item_path (blob ''x/y.txt'' ''s1''))"
    by (simp add: orphan_items_def blob_def)
  have e: "buildFileTree compare_bytes orphan_items = [FileNode ''s2'' ''c.txt'' File ''c.txt'' None]"
    by (simp add: buildFileTree_def build_def sortedItems_def sort_by_def compare_items_def
        depth_def orphan_items_def blob_def sp add_item_def empty_build_def Let_def read_node.simps)
  from buildFileTree_drops_orphans [OF 1 2 3, of compare_bytes] e show ?thesis
    by (simp add: blob_def)
qed

section \<open>The endpoints of the source-hosting API\<close>

lemma parseGitHubUrl_rejects:
  assumes "parse url = Some (hostname, pathname)"
    and "\<not> str_includes hostname ''github.com'' \<or>
         length (filter (\<lambda>p. p \<noteq> []) (split CHR ''/'' pathname)) < 2"
  shows "parseGitHubUrl parse url = None"
  using assms by (auto simp: parseGitHubUrl_def Let_def)

lemma parseGitHubUrl_hello_world:
  "parseGitHubUrl simple_url hello_world_url = Some (''octocat'', ''Hello-World'')"
  by (simp add: parseGitHubUrl_def simple_url_def hello_world_url_def split_def Let_def)

text \<open>
  Claim C4. Let the URL of the request be a string that the URL parser accepts, and let
  its host name lack \<open>github.com\<close> or its path have fewer than two non-empty segments.
  The tree endpoint answers 400 with \<open>Invalid GitHub URL\<close>, and so does the content
  endpoint for a request that names a file path; in each case no outbound request has
  been issued. (A content request that names no path is turned down one check earlier,
  also with 400 and no outbound request.)
\<close>

theorem invalid_url_rejected_before_fetch:
  assumes "url \<noteq> []"
    and "parse url = Some (hostname, pathname)"
    and "\<not> str_includes hostname ''github.com'' \<or>
         length (filter (\<lambda>p. p \<noteq> []) (split CHR ''/'' pathname)) < 2"
  shows "tree_POST parse lc env api (Inr \<lparr>treq_url = Some url\<rparr>) =
           (Response 400 (TreeError ''Invalid GitHub URL''), []) \<and>
         (truthy path \<longrightarrow>
            content_POST lower parse env api
                (Inr \<lparr>creq_url = Some url, creq_path = path, creq_branch = branch\<rparr>) =
              (Response 400 (ContentError ''Invalid GitHub URL''), [])) \<and>
         (\<exists>msg. content_POST lower parse env api
                (Inr \<lparr>creq_url = Some url, creq_path = path, creq_branch = branch\<rparr>) =
              (Response 400 (ContentError msg), []))"
proof -
  have none: "parseGitHubUrl parse url = None"
    using assms(2,3) by (rule parseGitHubUrl_rejects)
  have u: "truthy (Some url)" using assms(1) by (simp add: truthy_def)
  have t: "tree_POST parse lc env api (Inr \<lparr>treq_url = Some url\<rparr>) =
           (Response 400 (TreeError ''Invalid GitHub URL''), [])"
    using none u by (simp add: tree_POST_def)
  have c: "content_POST lower parse env api
                (Inr \<lparr>creq_url = Some url, creq_path = path, creq_branch = branch\<rparr>) =
              (Response 400 (ContentError ''Invalid GitHub URL''), [])" if "truthy path"
    using none u that by (simp add: content_POST_def)
  have "\<exists>msg. content_POST lower parse env api
                (Inr \<lparr>creq_url = Some url, creq_path = path, creq_branch = branch\<rparr>) =
              (Response 400 (ContentError msg), [])"
  proof (cases "truthy path")
    case True
    with c show ?thesis by blast
  next
    case False
    then show ?thesis by (simp add: content_POST_def)
  qed
  with t c show ?thesis by blast
qed

theorem invalid_url_rejected_before_fetch_witness:
  "tree_POST simple_url compare_bytes no_env github_readme
       (Inr \<lparr>treq_url = Some ''https://example.com/octocat/Hello-World''\<rparr>) =
     (Response 400 (TreeError ''Invalid GitHub URL''), []) \<and>
   content_POST ascii_lower simple_url no_env github_readme
       (Inr \<lparr>creq_url = Some ''https://example.com/octocat/Hello-World'',
             creq_path = Some ''README'', creq_branch = None\<rparr>) =
     (Response 400 (ContentError ''Invalid GitHub URL''), [])"
proof -
  let ?url = "''https://example.com/octocat/Hello-World''"
  have 1: "?url \<noteq> []" by simp
  have 2: "simple_url ?url = Some (''example.com'', ''/octocat/Hello-World'')"
    by (simp add: simple_url_def Let_def)
  have 3: "\<not> str_includes ''example.com'' ''github.com'' \<or>
         length (filter (\<lambda>p. p \<noteq> []) (split CHR ''/'' ''/octocat/Hello-World'')) < 2"
    by simp
  have 4: "truthy (Some ''README'')" by (simp add: truthy_def)
  from invalid_url_rejected_before_fetch [where parse = simple_url and url = ?url
      and lc = compare_bytes and env = no_env and api = github_readme and lower = ascii_lower
      and path = "Some ''README''" and branch = None, OF 1 2 3] 4
  show ?thesis by blast
qed

text \<open>
  Claim C7. When the tree endpoint has issued the request for the metadata of the
  repository and the reply is 404, it answers 404 with \<open>Repository not found\<close>. This
  request is the only one it has issued.
\<close>

theorem tree_metadata_404:
  assumes "truthy (treq_url b)"
    and "parseGitHubUrl parse (the (treq_url b)) = Some (owner, repo)"
    and "repo_api api (''https://api.github.com/repos/'' @ owner @ ''/'' @ repo, getGitHubHeaders env) =
           Fetched 404 body"
  shows "tree_POST parse lc env api (Inr b) =
           (Response 404 (TreeError ''Repository not found''),
            [(''https://api.github.com/repos/'' @ owner @ ''/'' @ repo, getGitHubHeaders env)])"
  using assms by (simp add: tree_POST_def Let_def ok_def)

theorem tree_metadata_404_witness:
  "tree_POST simple_url compare_bytes no_env github_404 (Inr \<lparr>treq_url = Some hello_world_url\<rparr>) =
     (Response 404 (TreeError ''Repository not found''),
      [(''https://api.github.com/repos/octocat/Hello-World'',
        [(''Accept'', ''application/vnd.github.v3+json''), (''User-Agent'', ''codoc-webapp'')])])"
proof -
  let ?b = "\<lparr>treq_url = Some hello_world_url\<rparr>"
  have 1: "truthy (treq_url ?b)" by (simp add: truthy_def hello_world_url_def)
  have 2: "parseGitHubUrl simple_url (the (treq_url ?b)) = Some (''octocat'', ''Hello-World'')"
    by (simp add: parseGitHubUrl_hello_world)
  have 3: "repo_api github_404
             (''https://api.github.com/repos/'' @ ''octocat'' @ ''/'' @ ''Hello-World'',
              getGitHubHeaders no_env) = Fetched 404 (Inl ''no body'')"
    by (simp add: github_404_def)
  from tree_metadata_404 [where parse = simple_url and api = github_404 and lc = compare_bytes,
      OF 1 2 3]
  show ?thesis by (simp add: getGitHubHeaders_def no_env_def truthy_def)
qed

section \<open>The extension of a file without a dot\<close>






section \<open>The chapter content endpoint\<close>

lemma ToBoolean_falsy: "(\<not> ToBoolean num v) = falsy num v"
proof (cases v)
  case None
  then show ?thesis by (simp add: falsy_def)
next
  case (Some x)
  then show ?thesis by (cases x) (auto simp: falsy_def)
qed

lemma fileContext_no_files:
  "files = None \<or> files = Some JNull \<or> files = Some (JArr []) \<Longrightarrow>
   fileContext num files = Some no_files"
  by (auto simp: fileContext_def Let_def)

text \<open>
  For a body as the component sends it, with texts in the places of \<open>repoName\<close>,
  \<open>title\<close> and \<open>description\<close>, the prompt is always built.
\<close>

lemma generate_prompt_texts:
  assumes "get ch F_title = Some (JStr title)"
    and "get ch F_description = None \<or> get ch F_description = Some (JStr d)"
  shows "generate_prompt num (JStr name) ch ctx =
           Some (prompt_text title name
                   (if get ch F_description = None \<or> d = [] then ''No description provided'' else d)
                   ctx)"
  using assms by (auto simp: generate_prompt_def substitution_def)

text \<open>
  Claim C10, as amended. The endpoint answers 400 if and only if the body parses to a
  value other than \<open>null\<close> in which \<open>repoName\<close> or \<open>chapter\<close> is absent or falsy, that
  is \<open>null\<close>, \<open>false\<close>, \<open>0\<close> or the empty string. When both are truthy and \<open>files\<close> is
  absent, \<open>null\<close> or the empty array, the context in the prompt is the text
  \<open>No specific files provided.\<close>, and the answer is that of the LLM client for the
  prompt with this context: 200 with the content and the id of the chapter when the
  client succeeds, 500 with its error otherwise. (A \<open>repoName\<close>, title or description
  that cannot be converted to a text ends in the \<open>catch\<close> of the handler; by
  \<open>generate_prompt_texts\<close> this does not happen for texts.)
\<close>

theorem generate_POST_validation:
  "((\<exists>e. fst (generate_POST num env api body (st, sent)) = Response 400 e) \<longleftrightarrow>
      (\<exists>b. body = Inr b \<and> b \<noteq> JNull \<and>
           (falsy num (get b F_repoName) \<or> falsy num (get b F_chapter)))) \<and>
   (body = Inr b \<and> get b F_repoName = Some name \<and> \<not> falsy num (Some name) \<and>
    get b F_chapter = Some ch \<and> \<not> falsy num (Some ch) \<and>
    (get b F_files = None \<or> get b F_files = Some JNull \<or> get b F_files = Some (JArr [])) \<longrightarrow>
      fileContext num (get b F_files) = Some no_files \<and>
      generate_POST num env api body (st, sent) =
        (case generate_prompt num name ch no_files of
           None \<Rightarrow> (Response 500 GenerateTypeError, st, sent)
         | Some prompt \<Rightarrow>
             (let r = sendToGroq env api (generate_options prompt) (st, sent)
              in case fst r of
                   Failure e \<Rightarrow> (Response 500 (GenerateError e), snd r)
                 | Success c \<Rightarrow> (Response 200 (GenerateJson c (get ch F_id)), snd r))))"
proof (intro conjI impI)
  show "(\<exists>e. fst (generate_POST num env api body (st, sent)) = Response 400 e) \<longleftrightarrow>
      (\<exists>b. body = Inr b \<and> b \<noteq> JNull \<and>
           (falsy num (get b F_repoName) \<or> falsy num (get b F_chapter)))"
  proof (cases body)
    case (Inl msg)
    then show ?thesis by (simp add: generate_POST_def)
  next
    case (Inr v)
    show ?thesis
    proof (cases "v = JNull")
      case True
      with Inr show ?thesis by (simp add: generate_POST_def)
    next
      case nn: False
      show ?thesis
      proof (cases "falsy num (get v F_repoName) \<or> falsy num (get v F_chapter)")
        case True
        then have "\<not> ToBoolean num (get v F_repoName) \<or> \<not> ToBoolean num (get v F_chapter)"
          by (simp add: ToBoolean_falsy)
        with Inr nn have "fst (generate_POST num env api body (st, sent)) =
            Response 400 (GenerateError ''Repository name and chapter are required'')"
          by (auto simp: generate_POST_def Let_def)
        with Inr nn True show ?thesis by simp
      next
        case False
        then have t: "ToBoolean num (get v F_repoName)" "ToBoolean num (get v F_chapter)"
          using ToBoolean_falsy [of num] by blast+
        with Inr nn have "\<forall>e. fst (generate_POST num env api body (st, sent)) \<noteq> Response 400 e"
          by (simp add: generate_POST_def Let_def split: option.splits GroqResponse.splits)
        with Inr False show ?thesis by simp
      qed
    qed
  qed
next
  assume h: "body = Inr b \<and> get b F_repoName = Some name \<and> \<not> falsy num (Some name) \<and>
    get b F_chapter = Some ch \<and> \<not> falsy num (Some ch) \<and>
    (get b F_files = None \<or> get b F_files = Some JNull \<or> get b F_files = Some (JArr []))"
  then show f: "fileContext num (get b F_files) = Some no_files"
    by (simp add: fileContext_no_files)
  from h have nn: "b \<noteq> JNull" by auto
  from h have t: "ToBoolean num (Some name)" "ToBoolean num (Some ch)"
    using ToBoolean_falsy [of num] by blast+
  from h nn t f show "generate_POST num env api body (st, sent) =
        (case generate_prompt num name ch no_files of
           None \<Rightarrow> (Response 500 GenerateTypeError, st, sent)
         | Some prompt \<Rightarrow>
             (let r = sendToGroq env api (generate_options prompt) (st, sent)
              in case fst r of
                   Failure e \<Rightarrow> (Response 500 (GenerateError e), snd r)
                 | Success c \<Rightarrow> (Response 200 (GenerateJson c (get ch F_id)), snd r)))"
    by (simp add: generate_POST_def Let_def split: option.splits GroqResponse.splits)
qed

theorem generate_POST_validation_witness:
  "generate_POST int_numbers env2 api_ok (Inr (intro_body (JStr ''Hello-World'') (JArr [])))
       (initial_key_state, []) =
     (Response 200 (GenerateJson ''Body of the chapter.'' (Some (JStr ''intro''))), initial_key_state,
      [request_with
         (generate_options
            (prompt_text ''Introduction'' ''Hello-World'' ''No description provided'' no_files))
         ''k0'']) \<and>
   fst (generate_POST int_numbers env2 api_ok
       (Inr (JObj [(''repoName'', JStr ''Hello-World''), (''chapter'', JNum 0)]))
       (initial_key_state, [])) =
     Response 400 (GenerateError ''Repository name and chapter are required'')"
proof -
  let ?b = "intro_body (JStr ''Hello-World'') (JArr [])"
  let ?zero = "JObj [(''repoName'', JStr ''Hello-World''), (''chapter'', JNum (0::int))]"
  let ?p = "prompt_text ''Introduction'' ''Hello-World'' ''No description provided'' no_files"
  let ?o = "generate_options ?p"
  have k: "getApiKeys env2 = [''k0'', ''k1'']"
    by (simp add: getApiKeys_def env2_def push_key_def)
  have s: "sendToGroq env2 api_ok ?o (initial_key_state, []) =
      (Success ''Body of the chapter.'', initial_key_state, [request_with ?o ''k0''])"
    by (simp add: sendToGroq_def attemptRequest.simps getCurrentApiKey_def k api_ok_def ok_def
        initial_key_state_def request_with_def Let_def)
  have g: "get ?b F_repoName = Some (JStr ''Hello-World'')" "get ?b F_chapter = Some intro_json"
    "get ?b F_files = Some (JArr [])" "get intro_json F_id = Some (JStr ''intro'')"
    "get intro_json F_title = Some (JStr ''Introduction'')" "get intro_json F_description = None"
    by (simp_all add: intro_body_def intro_json_def member_of_def)
  have pr: "generate_prompt int_numbers (JStr ''Hello-World'') intro_json no_files = Some ?p"
    using generate_prompt_texts [of intro_json "''Introduction''" "[]" int_numbers "''Hello-World''" no_files]
      g(5,6) by simp
  have h: "Inr ?b = Inr ?b \<and> get ?b F_repoName = Some (JStr ''Hello-World'') \<and>
    \<not> falsy int_numbers (Some (JStr ''Hello-World'')) \<and>
    get ?b F_chapter = Some intro_json \<and> \<not> falsy int_numbers (Some intro_json) \<and>
    (get ?b F_files = None \<or> get ?b F_files = Some JNull \<or> get ?b F_files = Some (JArr []))"
    using g by (simp add: falsy_def intro_json_def)
  note t = generate_POST_validation [of int_numbers env2 api_ok "Inr ?b" initial_key_state "[]" ?b
      "JStr ''Hello-World''" intro_json, THEN conjunct2, THEN mp, OF h, THEN conjunct2]
  have 1: "generate_POST int_numbers env2 api_ok (Inr ?b) (initial_key_state, []) =
     (Response 200 (GenerateJson ''Body of the chapter.'' (Some (JStr ''intro''))), initial_key_state,
      [request_with ?o ''k0''])"
    unfolding t by (simp add: pr s g Let_def)
  have z: "\<exists>b. (Inr ?zero :: string + int json) = Inr b \<and> b \<noteq> JNull \<and>
           (falsy int_numbers (get b F_repoName) \<or> falsy int_numbers (get b F_chapter))"
    by (simp add: falsy_def member_of_def int_numbers_def)
  from generate_POST_validation [of int_numbers env2 api_ok "Inr ?zero" initial_key_state "[]",
      THEN conjunct1] z
  obtain e where e: "fst (generate_POST int_numbers env2 api_ok (Inr ?zero) (initial_key_state, [])) =
      Response 400 e"
    by blast
  then have "e = GenerateError ''Repository name and chapter are required''"
    by (simp add: generate_POST_def member_of_def int_numbers_def Let_def)
  with 1 e show ?thesis by simp
qed

text \<open>
  Claim C10 as stated fails: a body that has both \<open>repoName\<close> and \<open>chapter\<close>, with the
  empty string as \<open>repoName\<close>, is answered with 400.
\<close>

theorem generate_POST_empty_repoName:
  "get (intro_body (JStr '''') (JArr [])) F_repoName = Some (JStr '''') \<and>
   get (intro_body (JStr '''') (JArr [])) F_chapter = Some intro_json \<and>
   generate_POST int_numbers env2 api_ok (Inr (intro_body (JStr '''') (JArr [])))
       (initial_key_state, []) =
     (Response 400 (GenerateError ''Repository name and chapter are required''),
      initial_key_state, [])"
  by (simp add: generate_POST_def intro_body_def intro_json_def member_of_def Let_def)

section \<open>Decoding and re-encoding the content of a text file\<close>

lemma utf8_decode_ascii: "cp < 128 \<Longrightarrow> utf8_decode (cp # rest) = cp # utf8_decode rest"
  by (simp add: utf8_decode.simps)

lemma utf8_decode_two:
  assumes "194 \<le> b" "b \<le> 223" "is_cont c"
  shows "utf8_decode (b # c # rest) = ((b - 192) * 64 + (c - 128)) # utf8_decode rest"
  using assms by (simp add: utf8_decode.simps)

lemma utf8_decode_three:
  assumes "224 \<le> b" "b \<le> 239" "second_ok b c" "is_cont d"
  shows "utf8_decode (b # c # d # rest) =
           ((b - 224) * 4096 + (c - 128) * 64 + (d - 128)) # utf8_decode rest"
  using assms by (simp add: utf8_decode.simps)

lemma utf8_decode_four:
  assumes "240 \<le> b" "b \<le> 244" "second_ok b c" "is_cont d" "is_cont e"
  shows "utf8_decode (b # c # d # e # rest) =
           ((b - 240) * 262144 + (c - 128) * 4096 + (d - 128) * 64 + (e - 128)) # utf8_decode rest"
  using assms by (simp add: utf8_decode.simps)

lemma cont_mod: "is_cont (128 + n mod 64)"
  by (simp add: is_cont_def)

lemma div_64_4096: "(cp::nat) div 64 div 64 = cp div 4096"
  by (simp add: div_mult2_eq)

lemma div_64_262144: "(cp::nat) div 4096 div 64 = cp div 262144"
  by (simp add: div_mult2_eq)

text \<open>Arithmetic of the bit fields, with the quotients and remainders as variables.\<close>

lemma three_byte_fields:
  fixes cp q a m r :: nat
  assumes "q = 64 * a + m" "cp = 64 * q + r" "r < 64" "m < 64"
  shows "a * 4096 + m * 64 + r = cp"
    and "2048 \<le> cp \<Longrightarrow> a = 0 \<Longrightarrow> 32 \<le> m"
    and "cp < 55296 \<Longrightarrow> a = 13 \<Longrightarrow> m < 32"
    and "57344 \<le> cp \<Longrightarrow> a \<noteq> 13"
    and "cp < 65536 \<Longrightarrow> a \<le> 15"
  using assms by simp_all

lemma four_byte_fields:
  fixes cp q p a m1 m2 r :: nat
  assumes "p = 64 * a + m1" "q = 64 * p + m2" "cp = 64 * q + r" "r < 64" "m1 < 64" "m2 < 64"
  shows "a * 262144 + m1 * 4096 + m2 * 64 + r = cp"
    and "65536 \<le> cp \<Longrightarrow> a = 0 \<Longrightarrow> 16 \<le> m1"
    and "cp < 1114112 \<Longrightarrow> a = 4 \<Longrightarrow> m1 < 16"
    and "cp < 1114112 \<Longrightarrow> a \<le> 4"
  using assms by simp_all

lemma utf8_decode_encode_cp:
  assumes "scalar cp"
  shows "utf8_decode (utf8_encode_cp cp @ rest) = cp # utf8_decode rest"
proof -
  consider "cp < 128" | "128 \<le> cp" "cp < 2048" | "2048 \<le> cp" "cp < 65536" | "65536 \<le> cp"
    by linarith
  then show ?thesis
  proof cases
    case 1
    then show ?thesis by (simp add: utf8_encode_cp_def utf8_decode_ascii)
  next
    case 2
    have b: "194 \<le> 192 + cp div 64" "192 + cp div 64 \<le> 223" using 2 by simp_all
    have v: "(192 + cp div 64 - 192) * 64 + (128 + cp mod 64 - 128) = cp" by simp
    from 2 show ?thesis
      by (simp add: utf8_encode_cp_def utf8_decode_two [OF b cont_mod] v)
  next
    case 3
    from assms 3 have ns: "cp < 55296 \<or> 57344 \<le> cp" by (simp add: scalar_def)
    define a where "a = cp div 4096"
    define q where "q = cp div 64"
    define m where "m = q mod 64"
    define r where "r = cp mod 64"
    have hi: "q = 64 * a + m"
      using div_mult_mod_eq [of q 64] by (simp add: a_def q_def m_def div_64_4096 mult.commute)
    have lo: "cp = 64 * q + r" by (simp add: q_def r_def)
    have rm: "r < 64" "m < 64" by (simp_all add: r_def m_def)
    note f = three_byte_fields [OF hi lo rm]
    have b: "224 \<le> 224 + a" "224 + a \<le> 239" using f(5) 3 by simp_all
    have s: "second_ok (224 + a) (128 + m)"
    proof (cases "a = 0")
      case True
      with f(2) 3 rm show ?thesis by (simp add: second_ok_def)
    next
      case a0: False
      show ?thesis
      proof (cases "a = 13")
        case True
        with f(3,4) ns have "m < 32" by blast
        with True show ?thesis by (simp add: second_ok_def)
      next
        case False
        with a0 b rm show ?thesis by (simp add: second_ok_def is_cont_def)
      qed
    qed
    have v: "(224 + a - 224) * 4096 + (128 + m - 128) * 64 + (128 + r - 128) = cp"
      using f(1) by simp
    have enc: "utf8_encode_cp cp = [224 + a, 128 + m, 128 + r]"
      using 3 ns by (auto simp: utf8_encode_cp_def a_def m_def q_def r_def)
    have c: "is_cont (128 + r)" using rm by (simp add: is_cont_def)
    show ?thesis
      unfolding enc using utf8_decode_three [OF b s c, of rest] v by simp
  next
    case 4
    from assms 4 have up: "cp < 1114112" by (simp add: scalar_def)
    define a where "a = cp div 262144"
    define p where "p = cp div 4096"
    define q where "q = cp div 64"
    define m1 where "m1 = p mod 64"
    define m2 where "m2 = q mod 64"
    define r where "r = cp mod 64"
    have h1: "p = 64 * a + m1"
      using div_mult_mod_eq [of p 64] by (simp add: a_def p_def m1_def div_64_262144 mult.commute)
    have h2: "q = 64 * p + m2"
      using div_mult_mod_eq [of q 64] by (simp add: p_def q_def m2_def div_64_4096 mult.commute)
    have lo: "cp = 64 * q + r" by (simp add: q_def r_def)
    have rm: "r < 64" "m1 < 64" "m2 < 64" by (simp_all add: r_def m1_def m2_def)
    note f = four_byte_fields [OF h1 h2 lo rm]
    have b: "240 \<le> 240 + a" "240 + a \<le> 244" using f(4) up by simp_all
    have s: "second_ok (240 + a) (128 + m1)"
    proof (cases "a = 0")
      case True
      with f(2) 4 rm show ?thesis by (simp add: second_ok_def)
    next
      case a0: False
      show ?thesis
      proof (cases "a = 4")
        case True
        with f(3) up have "m1 < 16" by blast
        with True show ?thesis by (simp add: second_ok_def)
      next
        case False
        with a0 rm show ?thesis by (simp add: second_ok_def is_cont_def)
      qed
    qed
    have v: "(240 + a - 240) * 262144 + (128 + m1 - 128) * 4096 + (128 + m2 - 128) * 64 +
             (128 + r - 128) = cp"
      using f(1) by simp
    have enc: "utf8_encode_cp cp = [240 + a, 128 + m1, 128 + m2, 128 + r]"
      using 4 by (simp add: utf8_encode_cp_def a_def p_def m1_def m2_def q_def r_def)
    have c: "is_cont (128 + m2)" "is_cont (128 + r)" using rm by (simp_all add: is_cont_def)
    show ?thesis
      unfolding enc using utf8_decode_four [OF b s c, of rest] v by simp
  qed
qed

lemma utf8_decode_encode:
  "\<forall>cp\<in>set t. scalar cp \<Longrightarrow> utf8_decode (utf8_encode t) = t"
  by (induction t) (simp_all add: utf8_encode_def utf8_decode_encode_cp)

lemma alphabet_table:
  "list_all (\<lambda>n. unbase64 (b64_char n) = Some n \<and> b64_char n \<noteq> CHR ''='') [0..<64]"
  by code_simp

lemma unbase64_b64_char:
  assumes "n < 64"
  shows "unbase64 (b64_char n) = Some n" and "b64_char n \<noteq> CHR ''=''"
  using alphabet_table assms by (simp_all add: list_all_iff)

lemma b64_sextets_char: "n < 64 \<Longrightarrow> b64_sextets (b64_char n # cs) = n # b64_sextets cs"
  by (simp add: unbase64_b64_char)

lemma b64_sextets_pad: "b64_sextets (CHR ''='' # cs) = []"
  by simp

lemma sextet_bounds:
  fixes x y z :: nat
  assumes "x < 256" "y < 256" "z < 256"
  shows "x div 4 < 64" "(x mod 4) * 16 + y div 16 < 64" "(y mod 16) * 4 + z div 64 < 64"
    "z mod 64 < 64" "(y mod 16) * 4 < 64" "(x mod 4) * 16 < 64"
  using assms by (simp_all add: less_mult_imp_div_less)

lemma b64_sextets_encode:
  "\<forall>b\<in>set bs. b < 256 \<Longrightarrow> b64_sextets (b64_encode bs) = sextets_of bs"
proof (induction bs rule: b64_encode.induct)
  case (1 x y z rest)
  then have b: "x < 256" "y < 256" "z < 256" by simp_all
  from 1 have "b64_sextets (b64_encode rest) = sextets_of rest" by simp
  then show ?case
    by (simp add: b64_sextets_char b64_sextets_pad sextet_bounds [OF b] del: b64_sextets.simps(2))
next
  case (2 x y)
  then have b: "x < 256" "y < 256" "(0::nat) < 256" by simp_all
  show ?case
    by (simp add: b64_sextets_char b64_sextets_pad sextet_bounds [OF b] del: b64_sextets.simps(2))
next
  case (3 x)
  then have b: "x < 256" "(0::nat) < 256" "(0::nat) < 256" by simp_all
  show ?case
    by (simp add: b64_sextets_char b64_sextets_pad sextet_bounds [OF b] del: b64_sextets.simps(2))
next
  case 4
  show ?case by simp
qed

lemma small_quotients:
  fixes y :: nat
  assumes "y < 256"
  shows "y div 16 div 16 = 0" "y div 64 div 4 = 0" "y div 16 mod 16 = y div 16"
    "y div 64 mod 4 = y div 64"
  using assms by (simp_all add: div_mult2_eq less_mult_imp_div_less)

lemma b64_bytes_group:
  assumes "y < 256" "z < 256"
  shows "b64_bytes ([x div 4, (x mod 4) * 16 + y div 16, (y mod 16) * 4 + z div 64, z mod 64] @ rest) =
           x # y # z # b64_bytes rest"
  using small_quotients [OF assms(1)] small_quotients [OF assms(2)] by simp

lemma b64_bytes_two:
  assumes "y < 256"
  shows "b64_bytes [x div 4, (x mod 4) * 16 + y div 16, (y mod 16) * 4] = [x, y]"
  using small_quotients [OF assms] by simp

lemma b64_bytes_one: "b64_bytes [x div 4, (x mod 4) * 16] = [x]"
  by simp

lemma b64_bytes_sextets:
  "\<forall>b\<in>set bs. b < 256 \<Longrightarrow> b64_bytes (sextets_of bs) = bs"
proof (induction bs rule: sextets_of.induct)
  case (1 x y z rest)
  then have b: "y < 256" "z < 256" by simp_all
  from 1 have "b64_bytes (sextets_of rest) = rest" by simp
  then show ?case
    unfolding sextets_of.simps by (simp only: b64_bytes_group [OF b])
next
  case (2 x y)
  then have b: "y < 256" by simp
  show ?case unfolding sextets_of.simps by (rule b64_bytes_two [OF b])
next
  case (3 x)
  show ?case unfolding sextets_of.simps by (rule b64_bytes_one)
next
  case 4
  show ?case by simp
qed

lemma Buffer_from_base64_encode:
  "\<forall>b\<in>set bs. b < 256 \<Longrightarrow> Buffer_from_base64 (b64_encode bs) = bs"
  by (simp add: Buffer_from_base64_def b64_sextets_encode b64_bytes_sextets)

lemma utf8_encode_cp_bytes:
  assumes "scalar cp"
  shows "\<forall>b\<in>set (utf8_encode_cp cp). b < 256"
proof -
  from assms have up: "cp < 1114112" by (auto simp: scalar_def)
  have m: "128 + n mod 64 < 256" for n :: nat
    using mod_less_divisor [of 64 n] by linarith
  consider "cp < 128" | "128 \<le> cp" "cp < 2048" | "2048 \<le> cp" "cp < 65536" | "65536 \<le> cp"
    by linarith
  then show ?thesis
  proof cases
    case 1
    then show ?thesis by (simp add: utf8_encode_cp_def)
  next
    case 2
    then have "cp div 64 < 32" by (simp add: less_mult_imp_div_less)
    then have "192 + cp div 64 < 256" by simp
    with 2 m [of cp] show ?thesis by (simp add: utf8_encode_cp_def del: mod_less_divisor)
  next
    case 3
    then have "cp div 4096 < 16" by (simp add: less_mult_imp_div_less)
    then have "224 + cp div 4096 < 256" by simp
    with 3 m [of cp] m [of "cp div 64"] show ?thesis
      by (simp add: utf8_encode_cp_def del: mod_less_divisor)
  next
    case 4
    from up have "cp div 262144 < 5" by (simp add: less_mult_imp_div_less)
    then have "240 + cp div 262144 < 256" by simp
    with 4 m [of cp] m [of "cp div 64"] m [of "cp div 4096"] show ?thesis
      by (simp add: utf8_encode_cp_def del: mod_less_divisor)
  qed
qed

lemma utf8_encode_bytes: "\<forall>cp\<in>set t. scalar cp \<Longrightarrow> \<forall>b\<in>set (utf8_encode t). b < 256"
  using utf8_encode_cp_bytes by (auto simp: utf8_encode_def)

lemma canonical_payload_bytes:
  "\<forall>cp\<in>set t. scalar cp \<Longrightarrow> Buffer_from_base64 (b64_encode (utf8_encode t)) = utf8_encode t"
  by (simp add: Buffer_from_base64_encode utf8_encode_bytes)

text \<open>
  Claim C5, as amended. Let \<open>t\<close> be a text of Unicode scalar values. If the bytes of the
  payload are the UTF-8 encoding of \<open>t\<close>, then the content the endpoint decodes is \<open>t\<close>,
  and encoding it again as UTF-8 gives the bytes of the payload. If the payload is the
  base64 encoding of these bytes, without line breaks, then the content is \<open>t\<close> and
  encoding it again as UTF-8 and as base64 gives the payload itself.
\<close>

theorem utf8_payload_round_trip:
  assumes "\<forall>cp\<in>set t. scalar cp"
  shows "(Buffer_from_base64 payload = utf8_encode t \<longrightarrow>
            utf8_decode (Buffer_from_base64 payload) = t \<and>
            utf8_encode (utf8_decode (Buffer_from_base64 payload)) = Buffer_from_base64 payload) \<and>
         (payload = b64_encode (utf8_encode t) \<longrightarrow>
            utf8_decode (Buffer_from_base64 payload) = t \<and>
            b64_encode (utf8_encode (utf8_decode (Buffer_from_base64 payload))) = payload)"
proof (intro conjI impI)
  assume b: "Buffer_from_base64 payload = utf8_encode t"
  show d: "utf8_decode (Buffer_from_base64 payload) = t"
    unfolding b using assms by (rule utf8_decode_encode)
  show "utf8_encode (utf8_decode (Buffer_from_base64 payload)) = Buffer_from_base64 payload"
    unfolding d using b by simp
next
  assume p: "payload = b64_encode (utf8_encode t)"
  have b: "Buffer_from_base64 payload = utf8_encode t"
    unfolding p using assms by (rule canonical_payload_bytes)
  show d: "utf8_decode (Buffer_from_base64 payload) = t"
    unfolding b using assms by (rule utf8_decode_encode)
  show "b64_encode (utf8_encode (utf8_decode (Buffer_from_base64 payload))) = payload"
    unfolding d using p by simp
qed

lemmas eval_defs = utf8_encode_def utf8_encode_cp_def Buffer_from_base64_def unbase64_def
  b64_alphabet_def b64_char_def utf8_decode.simps is_cont_def second_ok_def replacement_def

theorem utf8_payload_round_trip_witness:
  "utf8_decode (Buffer_from_base64 (''SGVsbG8gV29y'' @ [CHR 0x0A] @ ''bGQhCg=='' @ [CHR 0x0A])) =
     [72, 101, 108, 108, 111, 32, 87, 111, 114, 108, 100, 33, 10] \<and>
   b64_encode (utf8_encode (utf8_decode (Buffer_from_base64 ''4oKsIPCfmIA=''))) = ''4oKsIPCfmIA='' \<and>
   utf8_decode (Buffer_from_base64 ''4oKsIPCfmIA='') = [8364, 32, 128512]"
proof -
  let ?t = "[72, 101, 108, 108, 111, 32, 87, 111, 114, 108, 100, 33, 10] :: nat list"
  let ?u = "[8364, 32, 128512] :: nat list"
  let ?p = "''SGVsbG8gV29y'' @ [CHR 0x0A] @ ''bGQhCg=='' @ [CHR 0x0A]"
  have 1: "\<forall>cp\<in>set ?t. scalar cp" by (simp add: scalar_def)
  have 2: "Buffer_from_base64 ?p = utf8_encode ?t" by (simp add: eval_defs)
  have 3: "\<forall>cp\<in>set ?u. scalar cp" by (simp add: scalar_def)
  have 4: "''4oKsIPCfmIA='' = b64_encode (utf8_encode ?u)" by (simp add: eval_defs)
  from utf8_payload_round_trip [OF 1, of ?p] 2 utf8_payload_round_trip [OF 3, of "''4oKsIPCfmIA=''"] 4
  show ?thesis by blast
qed

text \<open>
  Claim C5 as stated fails. The text branch takes a file of the single byte 0xFF, which
  travels as \<open>/w==\<close>: the decoded content is U+FFFD, its UTF-8 encoding is the three
  bytes EF BF BD, and the base64 text of those is \<open>77+9\<close>.
\<close>

theorem binary_payload_not_reproduced:
  "content_POST ascii_lower simple_url no_env github_binary
       (Inr \<lparr>creq_url = Some hello_world_url, creq_path = Some ''blob.bin'',
             creq_branch = Some ''master''\<rparr>) =
     (Response 200 (TextJson ''blob.bin'' ''blob.bin'' 1 [65533] ''bin'' ''ce542efa''),
      [(''https://api.github.com/repos/octocat/Hello-World/contents/blob.bin?ref=master'',
        [(''Accept'', ''application/vnd.github.v3+json''), (''User-Agent'', ''codoc-webapp'')])]) \<and>
   Buffer_from_base64 ''/w=='' = [255] \<and>
   utf8_encode [65533] = [239, 191, 189] \<and>
   b64_encode (utf8_encode [65533]) = ''77+9'' \<and>
   b64_encode (utf8_encode (utf8_decode (Buffer_from_base64 ''/w==''))) \<noteq> ''/w==''"
  by (simp add: content_POST_def truthy_def hello_world_url_def parseGitHubUrl_def simple_url_def
      split_def github_binary_def binary_data_def ok_def extension_of_def ascii_lower_def
      lower_char_def imageExtensions_def videoExtensions_def pdfExtensions_def
      contents_url_def branch_or_main_def getGitHubHeaders_def no_env_def eval_defs Let_def)

section \<open>The texts in the cache are not empty\<close>

lemma attemptRequest_success_nonempty:
  "fst (attemptRequest env api ms t mt (st, sent)) = Success c \<Longrightarrow> c \<noteq> []"
proof (induction "length (getApiKeys env) - currentApiKeyIndex st" arbitrary: st sent
    rule: less_induct)
  case less
  let ?N = "length (getApiKeys env)"
  let ?r = "getCurrentApiKey env st"
  show ?case
  proof (cases "fst ?r = None \<or> fst ?r = Some []")
    case True
    with less.prems show ?thesis by (subst (asm) attemptRequest.simps) (simp add: Let_def)
  next
    case False
    then obtain k where k: "fst ?r = Some k" "k \<noteq> []" by (cases "fst ?r") auto
    define st1 where "st1 = snd ?r"
    have cur: "?r = (Some k, st1)" using k by (simp add: st1_def prod_eq_iff)
    have v: "currentApiKeyIndex st1 < ?N" using cur by (rule getCurrentApiKey_Some)
    let ?req = "mk_request ms t mt k"
    show ?thesis
    proof (cases "api (length sent) ?req")
      case (FetchThrew msg)
      with cur k less.prems show ?thesis
        by (subst (asm) attemptRequest.simps) (simp add: Let_def)
    next
      case (Reply status body)
      show ?thesis
      proof (cases "status = 429 \<and> \<not> allKeysExhausted st1")
        case True
        then have same: "st1 = st"
          using cur by (auto simp: getCurrentApiKey_def Let_def split: if_splits)
        show ?thesis
        proof (cases "Suc (currentApiKeyIndex st) < ?N")
          case next_key: True
          let ?st2 = "st\<lparr>currentApiKeyIndex := Suc (currentApiKeyIndex st)\<rparr>"
          have sw: "switchToNextKey env st = (True, ?st2)"
            using next_key by (simp add: switchToNextKey_def Let_def)
          have step: "attemptRequest env api ms t mt (st, sent) =
                      attemptRequest env api ms t mt (?st2, sent @ [?req])"
            using cur k Reply True sw same by (subst attemptRequest.simps) (simp add: Let_def)
          have "?N - currentApiKeyIndex ?st2 < ?N - currentApiKeyIndex st"
            using next_key by simp
          from less.hyps [OF this] less.prems step show ?thesis by simp
        next
          case False
          then have sw: "switchToNextKey env st =
              (False, st\<lparr>currentApiKeyIndex := 0, allKeysExhausted := True\<rparr>)"
            by (simp add: switchToNextKey_def Let_def)
          with cur k Reply True same less.prems show ?thesis
            by (subst (asm) attemptRequest.simps) (simp add: Let_def)
        qed
      next
        case False
        then have nr: "(status = 429 \<and> \<not> allKeysExhausted st1) = False" by simp
        show ?thesis
        proof (cases body)
          case (BodyThrew msg)
          with cur k Reply less.prems show ?thesis
            by (subst (asm) attemptRequest.simps) (simp add: Let_def nr split: if_splits)
        next
          case (Body c')
          with cur k Reply less.prems show ?thesis
            by (subst (asm) attemptRequest.simps) (auto simp: Let_def nr split: if_splits)
        qed
      qed
    qed
  qed
qed

lemma sendToGroq_success_nonempty:
  "fst (sendToGroq env api options (st, sent)) = Success c \<Longrightarrow> c \<noteq> []"
  by (simp add: sendToGroq_def attemptRequest_success_nonempty)

text \<open>The handler of the generation endpoint answers a success only with a content.\<close>

lemma generate_POST_content_nonempty:
  assumes "fst (generate_POST num env api body (st, sent)) = Response status (GenerateJson c cid)"
  shows "status = 200 \<and> c \<noteq> []"
proof -
  from assms obtain prompt where
    "fst (sendToGroq env api (generate_options prompt) (st, sent)) = Success c \<and> status = 200"
    by (auto simp: generate_POST_def Let_def
        split: sum.splits if_splits option.splits GroqResponse.splits)
  then show ?thesis using sendToGroq_success_nonempty by blast
qed

text \<open>
  The two places that write to the cache keep it free of empty texts: the loop of
  \<open>generateDocumentation\<close> by its own test, \<open>generateChapterContent\<close> as long as the
  endpoint answers a success only with a content. So every state of the component has
  this property.
\<close>

lemma initial_cache_texts_nonempty: "cache_texts_nonempty initial_ui"
  by (simp add: cache_texts_nonempty_def initial_ui_def)

lemma generate_one_cache_texts_nonempty:
  "cache_texts_nonempty st \<Longrightarrow> cache_texts_nonempty (fst (generate_one api repoInfo keyFiles st chapter))"
  by (auto simp: cache_texts_nonempty_def generate_one_def Let_def)

lemma generateChapterContent_cache_texts_nonempty:
  assumes "cache_texts_nonempty st" and "replies_with_content api"
  shows "cache_texts_nonempty (fst (generateChapterContent lower api repoInfo st chapter))"
proof (cases "truthy_property (object_get (generatedContent (docState st)) (ch_id chapter))")
  case True
  with assms(1) show ?thesis
    by (simp add: generateChapterContent_def cache_texts_nonempty_def Let_def)
next
  case False
  let ?call = "chapter_call repoInfo chapter (fst (collectKeyFiles lower api repoInfo))"
  show ?thesis
  proof (cases "generate_endpoint api ?call")
    case (FetchFailed msg)
    with False assms(1) show ?thesis
      by (simp add: generateChapterContent_def cache_texts_nonempty_def Let_def)
  next
    case (Fetched status body)
    show ?thesis
    proof (cases body)
      case (Inl msg)
      with Fetched False assms(1) show ?thesis
        by (simp add: generateChapterContent_def cache_texts_nonempty_def Let_def)
    next
      case (Inr data)
      show ?thesis
      proof (cases "ok status")
        case True
        with Fetched Inr assms(2) have "truthy (reply_content data)"
          unfolding replies_with_content_def by blast
        with True Fetched Inr False assms(1) show ?thesis
          by (auto simp: generateChapterContent_def cache_texts_nonempty_def Let_def)
      next
        case no: False
        with Fetched Inr False assms(1) show ?thesis
          by (simp add: generateChapterContent_def cache_texts_nonempty_def Let_def)
      qed
    qed
  qed
qed

lemma reachable_cache_texts_nonempty:
  assumes "replies_with_content api" and "reachable lower api repoInfo st"
  shows "cache_texts_nonempty st"
  using assms(2)
proof induction
  case mounted
  show ?case by (rule initial_cache_texts_nonempty)
next
  case (round st keyFiles ch)
  then show ?case by (simp add: generate_one_cache_texts_nonempty)
next
  case (click st ch)
  then show ?case using assms(1) by (simp add: generateChapterContent_cache_texts_nonempty)
next
  case (other st st')
  then show ?case by (simp add: cache_texts_nonempty_def)
qed

lemma app_ok_replies_with_content: "replies_with_content app_ok"
  by (simp add: replies_with_content_def app_ok_def truthy_def)

section \<open>The cache of generated chapters\<close>

text \<open>
  The lookup also finds what the cache inherits. The name of a member of
  \<open>Object.prototype\<close>, such as \<open>constructor\<close>, is no key of the cache of a component
  that has just been mounted, and yet the lookup gives a truthy value for it, which is
  shown in the place of a text.
\<close>

lemma inherited_member_shown:
  "generatedContent (docState initial_ui) ''constructor'' = None \<and>
   generateChapterContent lower api repoInfo initial_ui (Chapter ''constructor'' title d cs) =
     (initial_ui\<lparr>activeContent :=
         (chapter_view ''constructor'')\<lparr>cs_chapterContent := Inherited ''constructor''\<rparr>\<rparr>, [])"
  by (simp add: generateChapterContent_def initial_ui_def object_get_def Object_prototype_def Let_def)

text \<open>
  Claim C6. Take a state of the component and a chapter whose id is a key of the cache.
  In every state of the component the values stored in the cache are texts that are not
  empty (\<open>reachable_cache_texts_nonempty\<close>), and this is what the statement asks of the
  state. Then \<open>generateChapterContent\<close> issues no request at all and shows the text
  stored under the id; nothing but \<open>activeContent\<close> changes, so the cache is what it was.
\<close>

theorem cached_chapter_shown_without_request:
  assumes "cache_texts_nonempty st"
    and "generatedContent (docState st) (ch_id chapter) = Some cached"
  shows "truthy cached \<and>
         generateChapterContent lower api repoInfo st chapter =
           (st\<lparr>activeContent := (chapter_view (ch_id chapter))\<lparr>cs_chapterContent := Text (the cached)\<rparr>\<rparr>,
            []) \<and>
         generatedContent (docState (fst (generateChapterContent lower api repoInfo st chapter))) =
           generatedContent (docState st)"
proof -
  from assms have t: "truthy cached" unfolding cache_texts_nonempty_def by blast
  then obtain s where c: "cached = Some s" "s \<noteq> []"
    by (cases cached) (auto simp: truthy_def)
  with assms(2) have l: "object_get (generatedContent (docState st)) (ch_id chapter) = Text s"
    by (simp add: object_get_def)
  with c have "generateChapterContent lower api repoInfo st chapter =
           (st\<lparr>activeContent := (chapter_view (ch_id chapter))\<lparr>cs_chapterContent := Text (the cached)\<rparr>\<rparr>,
            [])"
    by (simp add: generateChapterContent_def Let_def)
  with t show ?thesis by simp
qed

text \<open>
  The first request for a chapter fetches its text; the second one, in the state the
  first has left, shows that text and issues no request.
\<close>

theorem cached_chapter_shown_without_request_witness:
  "generatedContent
     (docState (fst (generateChapterContent ascii_lower app_ok empty_repo initial_ui
                       (Chapter ''intro'' ''Introduction'' None None)))) ''intro'' =
     Some (Some ''Fresh text.'') \<and>
   generateChapterContent ascii_lower app_ok empty_repo
       (fst (generateChapterContent ascii_lower app_ok empty_repo initial_ui
               (Chapter ''intro'' ''Introduction'' None None)))
       (Chapter ''intro'' ''Introduction'' None None) =
     ((fst (generateChapterContent ascii_lower app_ok empty_repo initial_ui
              (Chapter ''intro'' ''Introduction'' None None)))
        \<lparr>activeContent := (chapter_view ''intro'')\<lparr>cs_chapterContent := Text ''Fresh text.''\<rparr>\<rparr>, [])"
proof -
  let ?ch = "Chapter ''intro'' ''Introduction'' None None"
  let ?st = "fst (generateChapterContent ascii_lower app_ok empty_repo initial_ui ?ch)"
  have 1: "cache_texts_nonempty ?st"
    using initial_cache_texts_nonempty app_ok_replies_with_content
    by (rule generateChapterContent_cache_texts_nonempty)
  have 2: "generatedContent (docState ?st) (ch_id ?ch) = Some (Some ''Fresh text.'')"
    by (simp add: generateChapterContent_def initial_ui_def object_get_def Object_prototype_def
        app_ok_def ok_def Let_def)
  from cached_chapter_shown_without_request [OF 1 2, of ascii_lower app_ok empty_repo] 2
  show ?thesis by simp
qed
end
